theory Spec2Isabelle
  imports Complex_Main "HOL-Library.Word"
begin

section \<open>Arrays and Python errors\<close>

text \<open>
  The exceptions the hooks can raise. \<open>OutsideModel\<close> is not a Python exception: it marks
  the inputs of the pooling and of \<open>torch.cat\<close> that the model of these two calls does
  not cover. No statement below is about such inputs.
\<close>

datatype error = ValueError | IndexError | TypeError | AttributeError | RuntimeError
  | OutsideModel

text \<open>
  A tensor (and the numpy array it is converted to) is its shape and its elements in
  row-major order.
\<close>

record 'a tensor =
  shape :: "nat list"
  data :: "'a list"

definition numel :: "nat list \<Rightarrow> nat" where
  "numel dims = prod_list dims"

definition wf_tensor :: "'a tensor \<Rightarrow> bool" where
  "wf_tensor t \<longleftrightarrow> length (data t) = numel (shape t)"

text \<open>\<open>rows k n xs\<close> reads \<open>xs\<close> as \<open>k\<close> consecutive rows of \<open>n\<close> elements.\<close>

definition rows :: "nat \<Rightarrow> nat \<Rightarrow> 'a list \<Rightarrow> 'a list list" where
  "rows k n xs = map (\<lambda>i. take n (drop (i * n) xs)) [0..<k]"

text \<open>\<open>len(tensor)\<close> is the leading dimension; a 0-d array has no length.\<close>

definition len :: "'a tensor \<Rightarrow> error + nat" where
  "len t = (case shape t of [] \<Rightarrow> Inl TypeError | n # _ \<Rightarrow> Inr n)"

text \<open>Iterating over an array yields its slices along the leading dimension.\<close>

definition unbind :: "'a tensor \<Rightarrow> 'a tensor list" where
  "unbind t =
     (case shape t of
        [] \<Rightarrow> []
      | n # rest \<Rightarrow> map (\<lambda>r. \<lparr>shape = rest, data = r\<rparr>) (rows n (numel rest) (data t)))"

text \<open>Python list indexing \<open>xs[i]\<close>: negative indices count from the end.\<close>

definition getitem :: "'a list \<Rightarrow> int \<Rightarrow> error + 'a" where
  "getitem xs i =
     (if 0 \<le> i \<and> i < int (length xs) then Inr (xs ! nat i)
      else if i < 0 \<and> - int (length xs) \<le> i then Inr (xs ! nat (int (length xs) + i))
      else Inl IndexError)"

text \<open>\<open>bs, c, h, w = x.size()\<close> raises ValueError unless the tensor is 4-D.\<close>

definition size4 :: "'a tensor \<Rightarrow> error + (nat \<times> nat \<times> nat \<times> nat)" where
  "size4 t = (case shape t of [bs, c, h, w] \<Rightarrow> Inr (bs, c, h, w) | _ \<Rightarrow> Inl ValueError)"

text \<open>A list comprehension whose body can raise stops at the first exception.\<close>

fun map_result :: "('a \<Rightarrow> error + 'b) \<Rightarrow> 'a list \<Rightarrow> error + 'b list" where
  "map_result f [] = Inr []"
| "map_result f (x # xs) =
     (case f x of
        Inl e \<Rightarrow> Inl e
      | Inr y \<Rightarrow> (case map_result f xs of Inl e \<Rightarrow> Inl e | Inr ys \<Rightarrow> Inr (y # ys)))"

section \<open>BaseAuxiliaryHook\<close>

text \<open>
  The hook object: \<open>func\<close> is the transform the subclass supplies, called with the stage
  output as its only argument; \<open>handle\<close> is the id of the registration, if any.
\<close>

record ('o, 'a) hook =
  func :: "'o \<Rightarrow> error + 'a tensor"
  fpn_idx :: int
  handle :: "nat option"
  records :: "'a tensor list"

definition BaseAuxiliaryHook :: "('o \<Rightarrow> error + 'a tensor) \<Rightarrow> int \<Rightarrow> ('o, 'a) hook" where
  "BaseAuxiliaryHook f i = \<lparr>func = f, fpn_idx = i, handle = None, records = []\<rparr>"

text \<open>
  \<open>_recording_forward\<close>: \<open>tensor = self.func(output)\<close>, then the conversion to a numpy
  array (the identity here), then one append per slice when \<open>len(tensor) > 1\<close> and one
  append of the whole array otherwise.
\<close>

definition recording_forward :: "('o, 'a) hook \<Rightarrow> 'o \<Rightarrow> error + ('o, 'a) hook" where
  "recording_forward self output =
     (case func self output of
        Inl e \<Rightarrow> Inl e
      | Inr tensor \<Rightarrow>
          (case len tensor of
             Inl e \<Rightarrow> Inl e
           | Inr n \<Rightarrow>
               if n > 1
               then Inr (foldl (\<lambda>h single_tensor. h\<lparr>records := records h @ [single_tensor]\<rparr>)
                          self (unbind tensor))
               else Inr (self\<lparr>records := records self @ [tensor]\<rparr>)))"

section \<open>The observed stage and the scope of a hook\<close>

text \<open>
  The stage is a module with its forward function and its table of forward hooks
  (registration id and hook object, in registration order); the hook objects live in a heap
  indexed by reference. \<open>register_forward_hook\<close>, \<open>remove\<close> and \<open>call\<close> follow
  \<open>torch.nn.Module\<close>: a registration gets a fresh id, \<open>remove\<close> deletes that id if it
  is present, and a call runs \<open>forward\<close> and then every registered hook on the result. The
  callback returns nothing, so the result is passed on unchanged.
\<close>

record ('i, 'o, 'a) world =
  forward :: "'i \<Rightarrow> 'o"
  forward_hooks :: "(nat \<times> nat) list"
  next_id :: nat
  heap :: "nat \<Rightarrow> ('o, 'a) hook"

definition register_forward_hook ::
  "nat \<Rightarrow> ('i, 'o, 'a) world \<Rightarrow> nat \<times> ('i, 'o, 'a) world" where
  "register_forward_hook ref w =
     (next_id w,
      w\<lparr>forward_hooks := forward_hooks w @ [(next_id w, ref)], next_id := Suc (next_id w)\<rparr>)"

definition remove :: "nat \<Rightarrow> ('i, 'o, 'a) world \<Rightarrow> ('i, 'o, 'a) world" where
  "remove hid w = w\<lparr>forward_hooks := filter (\<lambda>entry. fst entry \<noteq> hid) (forward_hooks w)\<rparr>"

text \<open>\<open>__enter__\<close> stores the handle of a new registration in the hook.\<close>

definition enter :: "nat \<Rightarrow> ('i, 'o, 'a) world \<Rightarrow> ('i, 'o, 'a) world" where
  "enter self w =
     (case register_forward_hook self w of
        (hid, w') \<Rightarrow> w'\<lparr>heap := (heap w')(self := (heap w' self)\<lparr>handle := Some hid\<rparr>)\<rparr>)"

text \<open>
  \<open>__exit__\<close> removes the stored handle whatever the exception arguments are; on a hook
  that was never entered \<open>self._handle\<close> is None and the attribute access fails.
\<close>

definition exit :: "nat \<Rightarrow> ('i, 'o, 'a) world \<Rightarrow> error + ('i, 'o, 'a) world" where
  "exit self w =
     (case handle (heap w self) of
        None \<Rightarrow> Inl AttributeError
      | Some hid \<Rightarrow> Inr (remove hid w))"

fun run_forward_hooks ::
  "(nat \<times> nat) list \<Rightarrow> 'o \<Rightarrow> ('i, 'o, 'a) world \<Rightarrow> error option \<times> ('i, 'o, 'a) world" where
  "run_forward_hooks [] result w = (None, w)"
| "run_forward_hooks ((hid, ref) # hs) result w =
     (case recording_forward (heap w ref) result of
        Inl e \<Rightarrow> (Some e, w)
      | Inr h' \<Rightarrow> run_forward_hooks hs result (w\<lparr>heap := (heap w)(ref := h')\<rparr>))"

definition call :: "'i \<Rightarrow> ('i, 'o, 'a) world \<Rightarrow> (error + 'o) \<times> ('i, 'o, 'a) world" where
  "call x w =
     (let result = forward w x
      in case run_forward_hooks (forward_hooks w) result w of
           (Some e, w') \<Rightarrow> (Inl e, w')
         | (None, w') \<Rightarrow> (Inr result, w'))"

text \<open>The batch loop of \<open>ClsExplainer._explain\<close>: one call per batch, stopped by an exception.\<close>

fun run_batches :: "'i list \<Rightarrow> ('i, 'o, 'a) world \<Rightarrow> error option \<times> ('i, 'o, 'a) world" where
  "run_batches [] w = (None, w)"
| "run_batches (x # xs) w =
     (case call x w of
        (Inl e, w') \<Rightarrow> (Some e, w')
      | (Inr _, w') \<Rightarrow> run_batches xs w')"

text \<open>
  \<open>with hook: body\<close>. Python runs \<open>__exit__\<close> whether the body returned or raised; as
  \<open>__exit__\<close> returns None, an exception of the body is raised again after it.
\<close>

definition with_hook ::
  "nat \<Rightarrow> (('i, 'o, 'a) world \<Rightarrow> error option \<times> ('i, 'o, 'a) world)
     \<Rightarrow> ('i, 'o, 'a) world \<Rightarrow> error option \<times> ('i, 'o, 'a) world" where
  "with_hook self body w =
     (case body (enter self w) of
        (r, w') \<Rightarrow>
          (case exit self w' of
             Inl e \<Rightarrow> (Some e, w')
           | Inr w'' \<Rightarrow> (r, w'')))"

section \<open>Float32 arithmetic\<close>

text \<open>
  The saliency transforms compute in float32, and what they return depends on its
  rounding and on its non-finite values. A float32 value is a real number, an infinity or
  NaN; the sign of zero is not modelled. \<open>round32\<close> is IEEE 754 rounding of a real
  number to binary32, to nearest with ties to even: \<open>binade\<close> finds the exponent \<open>e\<close>
  with \<open>2^e \<le> |r| < 2^(e+1)\<close>, kept within \<open>-126 .. 127\<close> (so that small numbers
  round to multiples of \<open>2^-149\<close>), the number is rounded to a multiple of \<open>2^(e-23)\<close>,
  and a result of magnitude \<open>2^128\<close> or more is an infinity.
\<close>

datatype f32 = Fin real | PInf | NInf | NaN

definition rne :: "real \<Rightarrow> int" where
  "rne t =
     (let f = \<lfloor>t\<rfloor>; r = t - of_int f
      in if r < 1 / 2 then f else if 1 / 2 < r then f + 1 else if even f then f else f + 1)"

fun binade :: "nat \<Rightarrow> int \<Rightarrow> real \<Rightarrow> int" where
  "binade 0 e r = e"
| "binade (Suc n) e r = (if r < 2 powi (e + 1) then e else binade n (e + 1) r)"

definition round32 :: "real \<Rightarrow> f32" where
  "round32 r =
     (if r = 0 then Fin 0
      else
        let e = binade 253 (- 126) \<bar>r\<bar>;
            q = 2 powi (e - 23);
            y = of_int (rne (r / q)) * q
        in if 2 powi 128 \<le> \<bar>y\<bar> then (if 0 < r then PInf else NInf) else Fin y)"

definition is_finite :: "f32 \<Rightarrow> bool" where
  "is_finite x = (case x of Fin _ \<Rightarrow> True | _ \<Rightarrow> False)"

fun fneg :: "f32 \<Rightarrow> f32" where
  "fneg (Fin a) = Fin (- a)"
| "fneg PInf = NInf"
| "fneg NInf = PInf"
| "fneg NaN = NaN"

fun fadd :: "f32 \<Rightarrow> f32 \<Rightarrow> f32" where
  "fadd (Fin a) (Fin b) = round32 (a + b)"
| "fadd NaN _ = NaN"
| "fadd _ NaN = NaN"
| "fadd PInf NInf = NaN"
| "fadd NInf PInf = NaN"
| "fadd PInf _ = PInf"
| "fadd _ PInf = PInf"
| "fadd NInf _ = NInf"
| "fadd _ NInf = NInf"

definition fsub :: "f32 \<Rightarrow> f32 \<Rightarrow> f32" where
  "fsub x y = fadd x (fneg y)"

fun fmul :: "f32 \<Rightarrow> f32 \<Rightarrow> f32" where
  "fmul (Fin a) (Fin b) = round32 (a * b)"
| "fmul NaN _ = NaN"
| "fmul _ NaN = NaN"
| "fmul (Fin a) PInf = (if a = 0 then NaN else if 0 < a then PInf else NInf)"
| "fmul (Fin a) NInf = (if a = 0 then NaN else if 0 < a then NInf else PInf)"
| "fmul PInf (Fin b) = (if b = 0 then NaN else if 0 < b then PInf else NInf)"
| "fmul NInf (Fin b) = (if b = 0 then NaN else if 0 < b then NInf else PInf)"
| "fmul PInf PInf = PInf"
| "fmul NInf NInf = PInf"
| "fmul PInf NInf = NInf"
| "fmul NInf PInf = NInf"

fun fdiv :: "f32 \<Rightarrow> f32 \<Rightarrow> f32" where
  "fdiv (Fin a) (Fin b) =
     (if b = 0 then (if a = 0 then NaN else if 0 < a then PInf else NInf)
      else round32 (a / b))"
| "fdiv NaN _ = NaN"
| "fdiv _ NaN = NaN"
| "fdiv (Fin a) _ = Fin 0"
| "fdiv PInf (Fin b) = (if 0 \<le> b then PInf else NInf)"
| "fdiv NInf (Fin b) = (if 0 \<le> b then NInf else PInf)"
| "fdiv _ _ = NaN"

fun fle :: "f32 \<Rightarrow> f32 \<Rightarrow> bool" where
  "fle (Fin a) (Fin b) = (a \<le> b)"
| "fle NInf _ = True"
| "fle _ PInf = True"
| "fle _ _ = False"

text \<open>\<open>torch.max\<close> and \<open>torch.min\<close> along a dimension return NaN when a NaN is present.\<close>

definition fmax :: "f32 \<Rightarrow> f32 \<Rightarrow> f32" where
  "fmax x y = (if x = NaN \<or> y = NaN then NaN else if fle x y then y else x)"

definition fmin :: "f32 \<Rightarrow> f32 \<Rightarrow> f32" where
  "fmin x y = (if x = NaN \<or> y = NaN then NaN else if fle x y then x else y)"

definition max_value :: "f32 list \<Rightarrow> f32" where
  "max_value r = foldl fmax (hd r) (tl r)"

definition min_value :: "f32 list \<Rightarrow> f32" where
  "min_value r = foldl fmin (hd r) (tl r)"

text \<open>
  A mean is the float32 sum divided by the count. The order in which \<open>torch.mean\<close> and
  the matrix product add up is the library's; the model adds from left to right.
\<close>

definition fsum :: "f32 list \<Rightarrow> f32" where
  "fsum xs = foldl fadd (Fin 0) xs"

definition fmean :: "f32 list \<Rightarrow> f32" where
  "fmean xs = fdiv (fsum xs) (round32 (real (length xs)))"

text \<open>
  \<open>.to(torch.uint8)\<close> drops the fractional part; a value outside 0..255 wraps. The
  conversion of NaN and of the infinities is undefined in C; it gives 0 on x86.
\<close>

fun to_uint8 :: "f32 \<Rightarrow> 8 word" where
  "to_uint8 (Fin v) = word_of_int (if 0 \<le> v then \<lfloor>v\<rfloor> else \<lceil>v\<rceil>)"
| "to_uint8 _ = 0"

section \<open>The transforms\<close>

text \<open>
  What a stage yields: one activation tensor or a list of them. The source tells the two
  apart with \<open>isinstance(feature_map, list)\<close>.
\<close>

datatype 'a activation = Single "'a tensor" | Sequence "'a tensor list"

text \<open>\<open>x.reshape((bs, c, h * w))\<close> on the elements of a tensor of shape \<open>(bs, c, h, w)\<close>.\<close>

definition reshape3 :: "nat \<Rightarrow> nat \<Rightarrow> nat \<Rightarrow> 'a list \<Rightarrow> 'a list list list" where
  "reshape3 bs c hw xs = map (rows c hw) (rows bs (c * hw) xs)"

text \<open>
  \<open>torch.mean(feature_map, dim=1)\<close> followed by \<open>reshape((bs, h * w))\<close>: for every
  example, the mean over the channels at each of the \<open>h * w\<close> positions.
\<close>

definition mean_dim1 :: "nat \<Rightarrow> f32 list list list \<Rightarrow> f32 list list" where
  "mean_dim1 hw x = map (\<lambda>ex. map (\<lambda>p. fmean (map (\<lambda>ch. ch ! p) ex)) [0..<hw]) x"

text \<open>The Python float \<open>1e-12\<close> enters the float32 computation as the nearest float32.\<close>

definition eps32 :: f32 where
  "eps32 = round32 (1 / 10 ^ 12)"

text \<open>
  The normalisation shared by \<open>SaliencyMapHook.func\<close> and \<open>EigenCamHook.func\<close>, on the
  map as a \<open>(bs, h * w)\<close> matrix: \<open>torch.max\<close> and \<open>torch.min\<close> over the last dimension,
  then \<open>255 * (saliency_map - min_values[:, None]) / (max_values - min_values + 1e-12)[:, None]\<close>,
  every operation rounded to float32.
\<close>

definition normalize :: "f32 list list \<Rightarrow> f32 list list" where
  "normalize saliency_map =
     (let max_values = map max_value saliency_map;
          min_values = map min_value saliency_map
      in map (\<lambda>(r, mx, mn).
                map (\<lambda>v. fdiv (fmul (Fin 255) (fsub v mn)) (fadd (fsub mx mn) eps32)) r)
           (zip saliency_map (zip max_values min_values)))"

text \<open>
  \<open>SaliencyMapHook.func(feature_map, _fpn_idx=0)\<close>. The activation is taken to be a
  float32 tensor, as a backbone yields it: the transform does not convert it. \<open>torch.max\<close>
  over an empty last dimension raises IndexError.
\<close>

definition SaliencyMapHook_func :: "f32 activation \<Rightarrow> int \<Rightarrow> error + 8 word tensor" where
  "SaliencyMapHook_func feature_map fpn_idx' =
     (case (case feature_map of Sequence fs \<Rightarrow> getitem fs fpn_idx' | Single t \<Rightarrow> Inr t) of
        Inl e \<Rightarrow> Inl e
      | Inr fm \<Rightarrow>
          (case size4 fm of
             Inl e \<Rightarrow> Inl e
           | Inr (bs, c, h, w) \<Rightarrow>
               if h * w = 0 then Inl IndexError
               else
                 let saliency_map = mean_dim1 (h * w) (reshape3 bs c (h * w) (data fm));
                     saliency_map = normalize saliency_map
                 in Inr \<lparr>shape = [bs, h, w], data = map to_uint8 (concat saliency_map)\<rparr>))"

text \<open>
  \<open>SaliencyMapHook(module, _fpn_idx)\<close>. The class inherits \<open>__init__\<close> and
  \<open>_recording_forward\<close>; the callback calls \<open>self.func(output)\<close> with one argument, so
  the parameter \<open>_fpn_idx\<close> of \<open>func\<close> takes its default 0 there.
\<close>

definition SaliencyMapHook :: "int \<Rightarrow> (f32 activation, 8 word) hook" where
  "SaliencyMapHook i = BaseAuxiliaryHook (\<lambda>output. SaliencyMapHook_func output 0) i"

text \<open>
  The feature-vector transform is modelled on real numbers with exact arithmetic: what is
  stated about it is stated up to floating tolerance.
  \<open>adaptive_avg_pool2d(f, (1, 1))\<close> on a 4-D tensor with at least one channel and one
  position: the mean of every channel plane. Other inputs are outside the model.
\<close>

definition adaptive_avg_pool2d :: "real tensor \<Rightarrow> error + real tensor" where
  "adaptive_avg_pool2d f =
     (case shape f of
        [bs, c, h, w] \<Rightarrow>
          if c = 0 \<or> h * w = 0 then Inl OutsideModel
          else Inr \<lparr>shape = [bs, c, 1, 1],
                    data = map (\<lambda>plane. sum_list plane / real (h * w))
                             (rows (bs * c) (h * w) (data f))\<rparr>
      | _ \<Rightarrow> Inl OutsideModel)"

text \<open>
  \<open>torch.cat(tensors, 1)\<close>: an empty list is a RuntimeError, and so is a list of tensors
  that differ in a dimension other than 1. The result holds, for every index of the leading
  dimension, the blocks of the tensors one after the other.
\<close>

definition cat1 :: "'a tensor list \<Rightarrow> error + 'a tensor" where
  "cat1 ts =
     (case ts of
        [] \<Rightarrow> Inl RuntimeError
      | t # _ \<Rightarrow>
          (case shape t of
             d0 # _ # rest \<Rightarrow>
               if list_all (\<lambda>u. length (shape u) = length (shape t) \<and> hd (shape u) = d0 \<and>
                                  drop 2 (shape u) = rest) ts
               then Inr \<lparr>shape = d0 # sum_list (map (\<lambda>u. shape u ! 1) ts) # rest,
                         data = concat (map (\<lambda>b. concat (map (\<lambda>u.
                                   rows d0 (shape u ! 1 * numel rest) (data u) ! b) ts)) [0..<d0])\<rparr>
               else Inl RuntimeError
           | _ \<Rightarrow> Inl OutsideModel))"

text \<open>\<open>FeatureVectorHook.func(feature_map)\<close>.\<close>

definition FeatureVectorHook_func :: "real activation \<Rightarrow> error + real tensor" where
  "FeatureVectorHook_func feature_map =
     (case feature_map of
        Sequence fs \<Rightarrow>
          (case map_result adaptive_avg_pool2d fs of
             Inl e \<Rightarrow> Inl e
           | Inr feature_vector \<Rightarrow> cat1 feature_vector)
      | Single t \<Rightarrow> adaptive_avg_pool2d t)"

definition FeatureVectorHook :: "(real activation, real) hook" where
  "FeatureVectorHook = BaseAuxiliaryHook FeatureVectorHook_func 0"

text \<open>
  \<open>EigenCamHook.func\<close>. \<open>astype_float32\<close> is \<open>x_.type(torch.float32)\<close>.
  \<open>centered_fmap\<close> is \<open>reshaped_fmap\<close> after the two assignments to it: the tensor
  reshaped to \<open>(bs, c, h * w)\<close>, transposed to \<open>(bs, h * w, c)\<close>, minus its mean over
  dimension 1. \<open>project_V0\<close> is \<open>(reshaped_fmap @ V[:, 0][:, :, None]).squeeze(-1)\<close>:
  every row times the first row of the example's third SVD factor.
\<close>

definition astype_float32 :: "f32 \<Rightarrow> f32" where
  "astype_float32 x = (case x of Fin a \<Rightarrow> round32 a | _ \<Rightarrow> x)"

definition centered_fmap :: "nat \<Rightarrow> nat \<Rightarrow> nat \<Rightarrow> f32 list \<Rightarrow> f32 list list list" where
  "centered_fmap bs c hw xs =
     (let reshaped_fmap = map (\<lambda>ex. map (\<lambda>p. map (\<lambda>ch. ch ! p) ex) [0..<hw]) (reshape3 bs c hw xs);
          mean = map (\<lambda>ex. map (\<lambda>ch. fmean (map (\<lambda>row. row ! ch) ex)) [0..<c]) reshaped_fmap
      in map (\<lambda>(ex, m). map (\<lambda>row. map (\<lambda>(a, b). fsub a b) (zip row m)) ex)
           (zip reshaped_fmap mean))"

definition project_V0 :: "f32 list list list \<Rightarrow> f32 list list list \<Rightarrow> f32 list list" where
  "project_V0 reshaped_fmap V =
     map (\<lambda>(ex, Vh). map (\<lambda>row. fsum (map (\<lambda>(a, b). fmul a b) (zip row (Vh ! 0)))) ex)
       (zip reshaped_fmap V)"

text \<open>
  \<open>torch.linalg.svd\<close> is a parameter: \<open>svd_Vh\<close> maps the batch of matrices to the batch of
  third factors, or raises. \<open>V[:, 0]\<close> raises IndexError when there is no channel, and
  \<open>torch.max\<close> does when there is no position. A list as input has no method \<open>type\<close>.
  Nothing on the way looks at whether the values are finite.
\<close>

definition EigenCamHook_func ::
  "(f32 list list list \<Rightarrow> error + f32 list list list) \<Rightarrow> f32 activation
     \<Rightarrow> error + 8 word tensor" where
  "EigenCamHook_func svd_Vh x' =
     (case x' of
        Sequence _ \<Rightarrow> Inl AttributeError
      | Single t \<Rightarrow>
          (case size4 t of
             Inl e \<Rightarrow> Inl e
           | Inr (bs, c, h, w) \<Rightarrow>
               let x = map astype_float32 (data t);
                   reshaped_fmap = centered_fmap bs c (h * w) x
               in (case svd_Vh reshaped_fmap of
                     Inl e \<Rightarrow> Inl e
                   | Inr V \<Rightarrow>
                       if c = 0 \<or> h * w = 0 then Inl IndexError
                       else
                         let saliency_map = project_V0 reshaped_fmap V;
                             saliency_map = normalize saliency_map
                         in Inr \<lparr>shape = [bs, h, w],
                                  data = map to_uint8 (concat saliency_map)\<rparr>)))"

definition EigenCamHook ::
  "(f32 list list list \<Rightarrow> error + f32 list list list) \<Rightarrow> (f32 activation, 8 word) hook" where
  "EigenCamHook svd_Vh = BaseAuxiliaryHook (EigenCamHook_func svd_Vh) 0"

section \<open>Properties of the recording callback\<close>

lemma foldl_append_records:
  "foldl (\<lambda>h t. h\<lparr>records := records h @ [t]\<rparr>) self ts = self\<lparr>records := records self @ ts\<rparr>"
  by (induction ts arbitrary: self) simp_all

lemma length_rows [simp]: "length (rows k n xs) = k"
  by (simp add: rows_def)

lemma nth_rows: "i < k \<Longrightarrow> rows k n xs ! i = take n (drop (i * n) xs)"
  by (simp add: rows_def)

lemma length_unbind: "shape t = B # rest \<Longrightarrow> length (unbind t) = B"
  by (simp add: unbind_def)

lemma nth_unbind:
  "shape t = B # rest \<Longrightarrow> i < B \<Longrightarrow>
     unbind t ! i = \<lparr>shape = rest, data = take (numel rest) (drop (i * numel rest) (data t))\<rparr>"
  by (simp add: unbind_def nth_rows)

lemma recording_forward_entries:
  assumes "func self output = Inr t" and "shape t = B # rest"
  shows "recording_forward self output =
           Inr (self\<lparr>records := records self @ (if 1 < B then unbind t else [t])\<rparr>)"
  using assms by (simp add: recording_forward_def len_def foldl_append_records)

lemma call_single:
  assumes "forward_hooks w = [(hid, self)]"
    and "func (heap w self) (forward w x) = Inr t" and "shape t = B # rest"
  shows "call x w = (Inr (forward w x),
           w\<lparr>heap := (heap w)(self := (heap w self)\<lparr>records := records (heap w self) @
                 (if 1 < B then unbind t else [t])\<rparr>)\<rparr>)"
  using assms by (simp add: call_def recording_forward_entries [OF assms(2,3)])

lemma run_batches_single:
  assumes "forward_hooks w = [(hid, self)]"
    and "\<forall>x\<in>set xs. func (heap w self) (forward w x) = Inr (ts x) \<and> (\<exists>rest. shape (ts x) = B # rest)"
  shows "run_batches xs w = (None,
           w\<lparr>heap := (heap w)(self := (heap w self)\<lparr>records := records (heap w self) @
                 concat (map (\<lambda>x. if 1 < B then unbind (ts x) else [ts x]) xs)\<rparr>)\<rparr>)"
  using assms
proof (induction xs arbitrary: w)
  case Nil
  then show ?case by simp
next
  case (Cons x xs)
  from Cons.prems obtain rest where t: "func (heap w self) (forward w x) = Inr (ts x)"
    and sh: "shape (ts x) = B # rest" by auto
  define new where "new = (\<lambda>x. if 1 < B then unbind (ts x) else [ts x])"
  define w1 where "w1 = w\<lparr>heap := (heap w)(self := (heap w self)\<lparr>records := records (heap w self) @ new x\<rparr>)\<rparr>"
  have c: "call x w = (Inr (forward w x), w1)"
    unfolding w1_def new_def by (rule call_single [OF Cons.prems(1) t sh])
  have step: "run_batches (x # xs) w = run_batches xs w1"
    by (simp add: c)
  have ih: "run_batches xs w1 = (None,
           w1\<lparr>heap := (heap w1)(self := (heap w1 self)\<lparr>records := records (heap w1 self) @
                 concat (map new xs)\<rparr>)\<rparr>)"
    unfolding new_def using Cons.prems by (intro Cons.IH) (auto simp: w1_def)
  have eq: "w1\<lparr>heap := (heap w1)(self := (heap w1 self)\<lparr>records := records (heap w1 self) @
                 concat (map new xs)\<rparr>)\<rparr>
          = w\<lparr>heap := (heap w)(self := (heap w self)\<lparr>records := records (heap w self) @
                 concat (map new (x # xs))\<rparr>)\<rparr>"
    by (simp add: w1_def)
  have "run_batches (x # xs) w = (None,
           w\<lparr>heap := (heap w)(self := (heap w self)\<lparr>records := records (heap w self) @
                 concat (map new (x # xs))\<rparr>)\<rparr>)"
    by (simp only: step ih eq)
  then show ?case by (simp only: new_def)
qed

lemma length_concat_entries:
  assumes "\<forall>x\<in>set xs. \<exists>rest. shape (ts x) = B # rest" and "1 \<le> B"
  shows "length (concat (map (\<lambda>x. if 1 < B then unbind (ts x) else [ts x]) xs)) = length xs * B"
  using assms(1)
proof (induction xs)
  case Nil
  then show ?case by simp
next
  case (Cons x xs)
  then obtain rest where "shape (ts x) = B # rest" by auto
  then have "length (if 1 < B then unbind (ts x) else [ts x]) = B"
    using assms(2) by (simp add: length_unbind)
  with Cons show ?case by simp
qed

text \<open>
  Claim C4. Let the transform's result \<open>t\<close> have leading dimension \<open>B\<close>. If \<open>B > 1\<close>, one
  callback appends the \<open>B\<close> slices of \<open>t\<close> along the leading dimension, slice \<open>i\<close> at
  position \<open>i\<close>; if \<open>B = 1\<close>, it appends \<open>t\<close> itself as a single record. With the hook
  attached to the stage, a loop over \<open>N\<close> batches whose results all have leading dimension
  \<open>B \<ge> 1\<close> ends normally with the records of the batches appended in order, batch after
  batch and by example within a batch, \<open>N * B\<close> new records in all.
\<close>

theorem batch_splitting:
  assumes "func self output = Inr t" and "shape t = B # rest"
    and "forward_hooks w = [(hid, ref)]"
    and "\<forall>x\<in>set xs. func (heap w ref) (forward w x) = Inr (ts x) \<and> (\<exists>rest'. shape (ts x) = B # rest')"
    and "1 \<le> B"
  shows "(1 < B \<longrightarrow>
            recording_forward self output = Inr (self\<lparr>records := records self @ unbind t\<rparr>) \<and>
            length (unbind t) = B \<and>
            (\<forall>i<B. unbind t ! i =
               \<lparr>shape = rest, data = take (numel rest) (drop (i * numel rest) (data t))\<rparr>)) \<and>
         (B = 1 \<longrightarrow> recording_forward self output = Inr (self\<lparr>records := records self @ [t]\<rparr>)) \<and>
         (\<exists>w'. run_batches xs w = (None, w') \<and>
            records (heap w' ref) = records (heap w ref) @
              concat (map (\<lambda>x. if B = 1 then [ts x] else unbind (ts x)) xs) \<and>
            length (records (heap w' ref)) = length (records (heap w ref)) + length xs * B)"
proof (intro conjI impI)
  assume "1 < B"
  then show "recording_forward self output = Inr (self\<lparr>records := records self @ unbind t\<rparr>)"
    using recording_forward_entries [OF assms(1,2)] by simp
  show "length (unbind t) = B"
    by (rule length_unbind [OF assms(2)])
  show "\<forall>i<B. unbind t ! i =
          \<lparr>shape = rest, data = take (numel rest) (drop (i * numel rest) (data t))\<rparr>"
    using nth_unbind [OF assms(2)] by blast
next
  assume "B = 1"
  then show "recording_forward self output = Inr (self\<lparr>records := records self @ [t]\<rparr>)"
    using recording_forward_entries [OF assms(1,2)] by simp
next
  have same: "(\<lambda>x. if 1 < B then unbind (ts x) else [ts x]) = (\<lambda>x. if B = 1 then [ts x] else unbind (ts x))"
    using assms(5) by (auto simp: fun_eq_iff)
  have len: "length (concat (map (\<lambda>x. if 1 < B then unbind (ts x) else [ts x]) xs)) = length xs * B"
    using assms(4,5) by (intro length_concat_entries) auto
  show "\<exists>w'. run_batches xs w = (None, w') \<and>
            records (heap w' ref) = records (heap w ref) @
              concat (map (\<lambda>x. if B = 1 then [ts x] else unbind (ts x)) xs) \<and>
            length (records (heap w' ref)) = length (records (heap w ref)) + length xs * B"
    using run_batches_single [OF assms(3,4)] len unfolding same by simp
qed

theorem batch_splitting_witness:
  "recording_forward (BaseAuxiliaryHook Inr 0) \<lparr>shape = [2, 2], data = [1, 2, 3, 4 :: nat]\<rparr> =
     Inr ((BaseAuxiliaryHook Inr 0)
            \<lparr>records := [\<lparr>shape = [2], data = [1, 2]\<rparr>, \<lparr>shape = [2], data = [3, 4]\<rparr>]\<rparr>) \<and>
   (\<exists>w'. run_batches [[1, 2, 3, 4], [5, 6, 7, 8 :: nat]]
            \<lparr>forward = (\<lambda>x. \<lparr>shape = [2, 2], data = x\<rparr>), forward_hooks = [(0, 0)], next_id = 1,
             heap = (\<lambda>_. BaseAuxiliaryHook Inr 0)\<rparr> = (None, w') \<and>
          records (heap w' 0) =
            [\<lparr>shape = [2], data = [1, 2]\<rparr>, \<lparr>shape = [2], data = [3, 4]\<rparr>,
             \<lparr>shape = [2], data = [5, 6]\<rparr>, \<lparr>shape = [2], data = [7, 8]\<rparr>])"
  using batch_splitting [of "BaseAuxiliaryHook Inr 0" "\<lparr>shape = [2, 2], data = [1, 2, 3, 4 :: nat]\<rparr>"
      "\<lparr>shape = [2, 2], data = [1, 2, 3, 4 :: nat]\<rparr>" 2 "[2]"
      "\<lparr>forward = (\<lambda>x. \<lparr>shape = [2, 2], data = x\<rparr>), forward_hooks = [(0, 0)], next_id = 1,
        heap = (\<lambda>_. BaseAuxiliaryHook Inr 0)\<rparr>" 0 0 "[[1, 2, 3, 4], [5, 6, 7, 8 :: nat]]"
      "\<lambda>x. \<lparr>shape = [2, 2], data = x\<rparr>"]
  by (simp add: BaseAuxiliaryHook_def unbind_def rows_def numel_def upt_rec) blast

text \<open>
  Claim C10. When the transform's result has leading dimension 0, the callback appends
  exactly one record, the empty array itself, although the array has no slice along its
  leading dimension.
\<close>

theorem empty_batch_one_record:
  assumes "func self output = Inr t" and "shape t = 0 # rest"
  shows "recording_forward self output = Inr (self\<lparr>records := records self @ [t]\<rparr>) \<and>
         unbind t = [] \<and>
         (\<exists>self'. recording_forward self output = Inr self' \<and>
            length (records self') = length (records self) + 1)"
  using recording_forward_entries [OF assms] assms(2) by (simp add: unbind_def rows_def)

theorem empty_batch_one_record_witness:
  "recording_forward (BaseAuxiliaryHook Inr 0) \<lparr>shape = [0, 2, 2], data = [] :: nat list\<rparr> =
     Inr ((BaseAuxiliaryHook Inr 0)\<lparr>records := [\<lparr>shape = [0, 2, 2], data = []\<rparr>]\<rparr>)"
  using empty_batch_one_record [of "BaseAuxiliaryHook Inr 0"
      "\<lparr>shape = [0, 2, 2], data = [] :: nat list\<rparr>" "\<lparr>shape = [0, 2, 2], data = [] :: nat list\<rparr>" "[2, 2]"]
  by (simp add: BaseAuxiliaryHook_def)

section \<open>Properties of the scope\<close>

lemma recording_forward_frame:
  "recording_forward h out = Inr h' \<Longrightarrow>
     func h' = func h \<and> handle h' = handle h \<and> fpn_idx h' = fpn_idx h"
  by (auto simp: recording_forward_def foldl_append_records split: sum.splits if_splits)

lemma run_forward_hooks_frame:
  "run_forward_hooks hs out w = (r, w') \<Longrightarrow>
     forward w' = forward w \<and> forward_hooks w' = forward_hooks w \<and> next_id w' = next_id w \<and>
     (\<forall>ref. handle (heap w' ref) = handle (heap w ref) \<and> func (heap w' ref) = func (heap w ref)) \<and>
     (\<forall>ref. ref \<notin> snd ` set hs \<longrightarrow> heap w' ref = heap w ref)"
proof (induction hs out w rule: run_forward_hooks.induct)
  case (1 result w)
  then show ?case by simp
next
  case (2 hid ref hs result w)
  show ?case
  proof (cases "recording_forward (heap w ref) result")
    case (Inl e)
    with "2.prems" show ?thesis by simp
  next
    case (Inr h')
    with "2.prems" have run: "run_forward_hooks hs result (w\<lparr>heap := (heap w)(ref := h')\<rparr>) = (r, w')"
      by simp
    note ih = "2.IH" [OF Inr run]
    from recording_forward_frame [OF Inr] ih show ?thesis
      by (auto simp: fun_upd_def split: if_splits)
  qed
qed

lemma call_frame:
  assumes "call x w = (r, w')"
  shows "forward w' = forward w \<and> forward_hooks w' = forward_hooks w \<and> next_id w' = next_id w \<and>
     (\<forall>ref. handle (heap w' ref) = handle (heap w ref) \<and> func (heap w' ref) = func (heap w ref)) \<and>
     (\<forall>ref. ref \<notin> snd ` set (forward_hooks w) \<longrightarrow> heap w' ref = heap w ref)"
proof -
  obtain e w1 where run: "run_forward_hooks (forward_hooks w) (forward w x) w = (e, w1)"
    by (cases "run_forward_hooks (forward_hooks w) (forward w x) w")
  with assms have "w' = w1"
    by (cases e) (simp_all add: call_def)
  with run_forward_hooks_frame [OF run] show ?thesis by simp
qed

lemma call_value:
  "call x w = (Inr v, w') \<Longrightarrow> v = forward w x"
  by (auto simp: call_def Let_def split: prod.splits option.splits)

lemma call_no_hooks:
  "forward_hooks w = [] \<Longrightarrow> call x w = (Inr (forward w x), w)"
  by (simp add: call_def)

lemma run_batches_frame:
  "run_batches xs w = (r, w') \<Longrightarrow>
     forward w' = forward w \<and> forward_hooks w' = forward_hooks w \<and> next_id w' = next_id w \<and>
     (\<forall>ref. handle (heap w' ref) = handle (heap w ref) \<and> func (heap w' ref) = func (heap w ref))"
proof (induction xs arbitrary: w)
  case Nil
  then show ?case by simp
next
  case (Cons x xs)
  obtain c w1 where c: "call x w = (c, w1)" by (cases "call x w")
  note f = call_frame [OF c]
  show ?case
  proof (cases c)
    case (Inl e)
    with Cons.prems c f show ?thesis by simp
  next
    case (Inr v)
    with Cons.prems c have "run_batches xs w1 = (r, w')" by simp
    from Cons.IH [OF this] f show ?thesis by simp
  qed
qed

lemma filter_registered:
  assumes "\<forall>entry\<in>set hs. fst entry \<noteq> n"
  shows "filter (\<lambda>entry. fst entry \<noteq> n) (hs @ [(n, ref)]) = hs"
  using assms by (induction hs) auto

lemma with_hook_run_batches:
  assumes fresh: "\<forall>entry\<in>set (forward_hooks w). fst entry \<noteq> next_id w"
    and body: "run_batches xs (enter self w) = (r, w1)"
  shows "with_hook self (run_batches xs) w =
           (r, w1\<lparr>forward_hooks := forward_hooks w\<rparr>)"
proof -
  have e: "forward_hooks (enter self w) = forward_hooks w @ [(next_id w, self)]"
    "handle (heap (enter self w) self) = Some (next_id w)"
    by (simp_all add: enter_def register_forward_hook_def)
  from run_batches_frame [OF body] e
  have "forward_hooks w1 = forward_hooks w @ [(next_id w, self)]"
    and "handle (heap w1 self) = Some (next_id w)" by simp_all
  then have "exit self w1 = Inr (w1\<lparr>forward_hooks := forward_hooks w\<rparr>)"
    using filter_registered [OF fresh] by (simp add: exit_def remove_def)
  then show ?thesis by (simp add: with_hook_def body)
qed

text \<open>
  Claim C5. Let the hook be unattached before its scope and the next registration id be
  unused. Whatever the batches in the body of \<open>with hook:\<close> are, and whether the loop ends
  normally or by an exception of a transform (which is then raised again), \<open>__exit__\<close>
  has run when the statement is left and the table of forward hooks is what it was before
  the scope. A later call of the stage leaves the records of the hook as they are and, when
  it returns, returns the result of \<open>forward\<close>; if no other hook is attached it returns
  exactly as a call of the stage to which no hook was ever attached.
\<close>

theorem detached_after_scope:
  assumes "\<forall>entry\<in>set (forward_hooks w). fst entry \<noteq> next_id w"
    and "\<forall>entry\<in>set (forward_hooks w). snd entry \<noteq> self"
  shows "\<exists>r w'. with_hook self (run_batches xs) w = (r, w') \<and>
           r = fst (run_batches xs (enter self w)) \<and>
           forward_hooks w' = forward_hooks w \<and>
           (\<forall>x. records (heap (snd (call x w')) self) = records (heap w' self)) \<and>
           (\<forall>x v. fst (call x w') = Inr v \<longrightarrow> v = forward w x) \<and>
           (forward_hooks w = [] \<longrightarrow>
              (\<forall>x. call x w' = (Inr (forward w x), w') \<and> fst (call x w) = Inr (forward w x)))"
proof -
  obtain r w1 where body: "run_batches xs (enter self w) = (r, w1)"
    by (cases "run_batches xs (enter self w)")
  define w' where "w' = w1\<lparr>forward_hooks := forward_hooks w\<rparr>"
  have wh: "with_hook self (run_batches xs) w = (r, w')"
    unfolding w'_def by (rule with_hook_run_batches [OF assms(1) body])
  have fw: "forward w' = forward w"
    using run_batches_frame [OF body] by (simp add: w'_def enter_def register_forward_hook_def)
  have hooks: "forward_hooks w' = forward_hooks w"
    by (simp add: w'_def)
  have recs: "records (heap (snd (call x w')) self) = records (heap w' self)" for x
  proof -
    obtain c w2 where c: "call x w' = (c, w2)" by (cases "call x w'")
    have "self \<notin> snd ` set (forward_hooks w')"
      using assms(2) hooks by auto
    with call_frame [OF c] have "heap w2 self = heap w' self" by blast
    with c show ?thesis by simp
  qed
  have val: "v = forward w x" if "fst (call x w') = Inr v" for x v
  proof -
    from that have "call x w' = (Inr v, snd (call x w'))"
      by (simp add: prod_eq_iff)
    from call_value [OF this] fw show ?thesis by simp
  qed
  have none: "call x w' = (Inr (forward w x), w') \<and> fst (call x w) = Inr (forward w x)"
    if "forward_hooks w = []" for x
    using that hooks fw by (simp add: call_no_hooks)
  have r: "r = fst (run_batches xs (enter self w))"
    by (simp add: body)
  show ?thesis
    using wh r hooks recs val none by (intro exI [of _ r] exI [of _ w']) blast
qed

theorem detached_after_scope_witness:
  "with_hook 0 (run_batches [\<lparr>shape = [2], data = [1, 2 :: nat]\<rparr>, \<lparr>shape = [], data = [7]\<rparr>])
     \<lparr>forward = (\<lambda>x. x), forward_hooks = [], next_id = 0, heap = (\<lambda>_. BaseAuxiliaryHook Inr 0)\<rparr> =
   (Some TypeError,
    \<lparr>forward = (\<lambda>x. x), forward_hooks = [], next_id = 1,
     heap = (\<lambda>_. BaseAuxiliaryHook Inr 0)
       (0 := \<lparr>func = Inr, fpn_idx = 0, handle = Some 0,
              records = [\<lparr>shape = [], data = [1]\<rparr>, \<lparr>shape = [], data = [2]\<rparr>]\<rparr>)\<rparr>) \<and>
   (\<exists>w'. with_hook 0 (run_batches [\<lparr>shape = [2], data = [1, 2 :: nat]\<rparr>, \<lparr>shape = [], data = [7]\<rparr>])
       \<lparr>forward = (\<lambda>x. x), forward_hooks = [], next_id = 0, heap = (\<lambda>_. BaseAuxiliaryHook Inr 0)\<rparr> =
         (Some TypeError, w') \<and>
       call \<lparr>shape = [2], data = [3, 4]\<rparr> w' = (Inr \<lparr>shape = [2], data = [3, 4]\<rparr>, w'))"
  using detached_after_scope [of
      "\<lparr>forward = (\<lambda>x. x), forward_hooks = [], next_id = 0, heap = (\<lambda>_. BaseAuxiliaryHook Inr 0)\<rparr>"
      0 "[\<lparr>shape = [2], data = [1, 2 :: nat]\<rparr>, \<lparr>shape = [], data = [7]\<rparr>]"]
  by (simp add: with_hook_def enter_def exit_def remove_def register_forward_hook_def call_def
      recording_forward_def len_def unbind_def rows_def numel_def BaseAuxiliaryHook_def upt_rec)

section \<open>Float32 rounding\<close>

text \<open>
  Rounding to nearest is off by at most half a unit in the last place, which for a number in
  the normal range is a relative error of at most \<open>2^-24\<close>; and once the exponent of a
  number is known, its rounding is computed without the search.
\<close>

lemma rne_error: "\<bar>real_of_int (rne t) - t\<bar> \<le> 1 / 2"
  unfolding rne_def Let_def by (auto simp: abs_if) linarith+

lemma rne_ge_floor: "\<lfloor>t\<rfloor> \<le> rne t"
  by (simp add: rne_def Let_def)

lemma binade_ge: "e \<le> binade n e r"
proof (induction n arbitrary: e)
  case 0
  then show ?case by simp
next
  case (Suc n)
  have "e + 1 \<le> binade n (e + 1) r" by (rule Suc.IH)
  then show ?case by simp
qed

lemma binade_lower: "2 powi e \<le> r \<Longrightarrow> 2 powi (binade n e r) \<le> r"
  by (induction n arbitrary: e) auto

lemma binade_upper: "binade n e r < e + int n \<Longrightarrow> r < 2 powi (binade n e r + 1)"
proof (induction n arbitrary: e)
  case 0
  then show ?case by simp
next
  case (Suc n)
  show ?case
  proof (cases "r < 2 powi (e + 1)")
    case True
    then show ?thesis by simp
  next
    case False
    with Suc.prems have "binade n (e + 1) r < (e + 1) + int n" by simp
    from Suc.IH [OF this] False show ?thesis by simp
  qed
qed

lemma binade_normal:
  assumes "2 powi (- 126) \<le> r" and "r < 2 powi 127"
  defines "e \<equiv> binade 253 (- 126) r"
  shows "2 powi e \<le> r" and "r < 2 powi (e + 1)" and "- 126 \<le> e"
proof -
  show lo: "2 powi e \<le> r"
    unfolding e_def by (rule binade_lower [OF assms(1)])
  show "- 126 \<le> e"
    unfolding e_def by (rule binade_ge)
  have "(2 :: real) powi e < 2 powi 127"
    using lo assms(2) by (rule le_less_trans)
  then have "e < 127"
    by (intro power_int_le_imp_less_exp [of "2 :: real"]) simp_all
  then have "binade 253 (- 126) r < - 126 + int 253"
    by (simp add: e_def)
  from binade_upper [OF this] show "r < 2 powi (e + 1)"
    by (simp add: e_def)
qed

lemma binade_unique:
  assumes "2 powi e \<le> r" and "r < 2 powi (e + 1)" and "- 126 \<le> e" and "e < 127"
  shows "binade 253 (- 126) r = e"
proof -
  have "(2 :: real) powi (- 126) \<le> 2 powi e"
    using assms(3) by (intro power_int_increasing) simp_all
  with assms(1) have lo: "2 powi (- 126) \<le> r" by simp
  have "(2 :: real) powi (e + 1) \<le> 2 powi 127"
    using assms(4) by (intro power_int_increasing) simp_all
  with assms(2) have hi: "r < 2 powi 127" by simp
  define e' where "e' = binade 253 (- 126) r"
  note b = binade_normal [OF lo hi, folded e'_def]
  have "\<not> e' + 1 \<le> e"
  proof
    assume "e' + 1 \<le> e"
    then have "(2 :: real) powi (e' + 1) \<le> 2 powi e"
      by (intro power_int_increasing) simp_all
    with assms(1) b(2) show False by simp
  qed
  moreover have "\<not> e + 1 \<le> e'"
  proof
    assume "e + 1 \<le> e'"
    then have "(2 :: real) powi (e + 1) \<le> 2 powi e'"
      by (intro power_int_increasing) simp_all
    with assms(2) b(1) show False by simp
  qed
  ultimately show ?thesis
    unfolding e'_def by linarith
qed

lemma round32_at:
  assumes "2 powi e \<le> \<bar>r\<bar>" and "\<bar>r\<bar> < 2 powi (e + 1)" and "- 126 \<le> e" and "e < 127"
  shows "round32 r = Fin (real_of_int (rne (r / 2 powi (e - 23))) * 2 powi (e - 23))"
proof -
  have "(0 :: real) < 2 powi e" by simp
  with assms(1) have "0 < \<bar>r\<bar>" by linarith
  then have nz: "r \<noteq> 0" by auto
  define q :: real where "q = 2 powi (e - 23)"
  define y where "y = real_of_int (rne (r / q)) * q"
  have qpos: "0 < q" by (simp add: q_def)
  have q_eq: "q = 2 powi e / 2 ^ 23"
    by (simp add: q_def power_int_diff)
  have "y - r = (real_of_int (rne (r / q)) - r / q) * q"
    using qpos by (simp add: y_def field_simps)
  then have "\<bar>y - r\<bar> = \<bar>real_of_int (rne (r / q)) - r / q\<bar> * q"
    using qpos by (simp add: abs_mult)
  also have "\<dots> \<le> (1 / 2) * q"
    using rne_error [of "r / q"] qpos by (intro mult_right_mono) simp_all
  also have "\<dots> = 2 powi e / 2 ^ 24"
    by (simp add: q_eq)
  also have "\<dots> \<le> \<bar>r\<bar>"
  proof -
    have "2 powi e / 2 ^ 24 \<le> (2 :: real) powi e"
      by (simp add: field_simps)
    with assms(1) show ?thesis by simp
  qed
  finally have "\<bar>y\<bar> \<le> 2 * \<bar>r\<bar>" by linarith
  also have "\<dots> < 2 * 2 powi (e + 1)"
    using assms(2) by simp
  also have "\<dots> \<le> 2 * 2 powi 127"
  proof -
    have "(2 :: real) powi (e + 1) \<le> 2 powi 127"
      using assms(4) by (intro power_int_increasing) simp_all
    then show ?thesis by simp
  qed
  also have "(2 :: real) * 2 powi 127 = 2 powi 128"
    by (simp add: power_int_def)
  finally have small: "\<not> 2 powi 128 \<le> \<bar>y\<bar>" by simp
  have "binade 253 (- 126) \<bar>r\<bar> = e"
    by (rule binade_unique [OF assms])
  then have "round32 r = (if 2 powi 128 \<le> \<bar>y\<bar> then (if 0 < r then PInf else NInf) else Fin y)"
    using nz by (simp add: round32_def Let_def y_def q_def)
  with small show ?thesis
    by (simp add: y_def q_def)
qed

lemma round32_positive_arg:
  assumes "0 < r"
  shows "round32 r =
           (let y = real_of_int (rne (r / 2 powi (binade 253 (- 126) r - 23))) *
                      2 powi (binade 253 (- 126) r - 23)
            in if 2 powi 128 \<le> \<bar>y\<bar> then PInf else Fin y)"
  using assms by (simp add: round32_def Let_def)

lemma round32_rel_error:
  assumes "2 powi (- 126) \<le> r" and "r < 2 powi 127"
  shows "\<exists>y. round32 r = Fin y \<and> \<bar>y - r\<bar> \<le> r / 2 ^ 24 \<and> 0 < y"
proof -
  have rpos: "0 < r"
    using assms(1) by (rule less_le_trans [rotated]) simp
  define e where "e = binade 253 (- 126) r"
  define q :: real where "q = 2 powi (e - 23)"
  define y where "y = real_of_int (rne (r / q)) * q"
  note b = binade_normal [OF assms, folded e_def]
  have qpos: "0 < q" by (simp add: q_def)
  have q_eq: "q = 2 powi e / 2 ^ 23"
    by (simp add: q_def power_int_diff)
  have "y - r = (real_of_int (rne (r / q)) - r / q) * q"
    using qpos by (simp add: y_def field_simps)
  then have "\<bar>y - r\<bar> = \<bar>real_of_int (rne (r / q)) - r / q\<bar> * q"
    using qpos by (simp add: abs_mult)
  also have "\<dots> \<le> (1 / 2) * q"
    using rne_error [of "r / q"] qpos by (intro mult_right_mono) simp_all
  also have "\<dots> = 2 powi e / 2 ^ 24"
    by (simp add: q_eq)
  also have "\<dots> \<le> r / 2 ^ 24"
    using b(1) by (simp add: divide_right_mono)
  finally have err: "\<bar>y - r\<bar> \<le> r / 2 ^ 24" .
  have "r / 2 ^ 24 < r"
    using rpos by (simp add: field_simps)
  with err have ypos: "0 < y" and "y < 2 * r" by linarith+
  with assms(2) have "\<bar>y\<bar> < 2 * 2 powi 127" by simp
  also have "(2 :: real) * 2 powi 127 = 2 powi 128"
    by (simp add: power_int_def)
  finally have "\<not> 2 powi 128 \<le> \<bar>y\<bar>" by simp
  moreover have "round32 r = (if 2 powi 128 \<le> \<bar>y\<bar> then PInf else Fin y)"
    unfolding round32_positive_arg [OF rpos] y_def q_def e_def Let_def ..
  ultimately have "round32 r = Fin y" by simp
  with err ypos show ?thesis by blast
qed

lemma round32_nonneg:
  assumes "0 \<le> r"
  shows "(\<exists>y\<ge>0. round32 r = Fin y) \<or> round32 r = PInf"
proof (cases "r = 0")
  case True
  then show ?thesis by (simp add: round32_def)
next
  case False
  with assms have rpos: "0 < r" by simp
  define q :: real where "q = 2 powi (binade 253 (- 126) r - 23)"
  define y where "y = real_of_int (rne (r / q)) * q"
  have qpos: "0 < q" by (simp add: q_def)
  have "0 \<le> \<lfloor>r / q\<rfloor>"
    using rpos qpos by simp
  then have "0 \<le> rne (r / q)"
    using rne_ge_floor [of "r / q"] by (rule order_trans)
  then have "0 \<le> y"
    unfolding y_def using qpos by (intro mult_nonneg_nonneg) simp_all
  moreover have "round32 r = (if 2 powi 128 \<le> \<bar>y\<bar> then PInf else Fin y)"
    unfolding round32_positive_arg [OF rpos] y_def q_def Let_def ..
  ultimately show ?thesis by auto
qed

lemma round32_pos:
  assumes "2 powi (- 126) \<le> r"
  shows "(\<exists>y>0. round32 r = Fin y) \<or> round32 r = PInf"
proof -
  have rpos: "0 < r"
    using assms by (rule less_le_trans [rotated]) simp
  define e where "e = binade 253 (- 126) r"
  define q :: real where "q = 2 powi (e - 23)"
  define y where "y = real_of_int (rne (r / q)) * q"
  have qpos: "0 < q" by (simp add: q_def)
  have "2 powi e \<le> r"
    unfolding e_def by (rule binade_lower [OF assms])
  then have "2 ^ 23 \<le> r / q"
    using qpos by (simp add: q_def power_int_diff field_simps)
  then have "2 ^ 23 \<le> \<lfloor>r / q\<rfloor>"
    by (simp add: le_floor_iff)
  then have "2 ^ 23 \<le> rne (r / q)"
    using rne_ge_floor [of "r / q"] by (rule order_trans)
  then have "0 < rne (r / q)" by simp
  then have "0 < y"
    unfolding y_def using qpos by (intro mult_pos_pos) simp_all
  moreover have "round32 r = (if 2 powi 128 \<le> \<bar>y\<bar> then PInf else Fin y)"
    unfolding round32_positive_arg [OF rpos] y_def q_def e_def Let_def ..
  ultimately show ?thesis by auto
qed

lemma eps32_value: "eps32 = Fin (9223372 / 2 ^ 63)"
  unfolding eps32_def using round32_at [of "- 40" "1 / 10 ^ 12"]
  by (simp add: rne_def Let_def power_int_def power_one_over)

text \<open>
  The byte at the maximum of a map. With \<open>d\<close> the float32 difference of the maximum and
  the minimum, the code computes \<open>255 * d\<close>, then \<open>d + 1e-12\<close>, then their quotient, each
  rounded. For \<open>d\<close> between \<open>1e-9\<close> and \<open>1e35\<close> the three relative errors leave the
  quotient between 254 and 256.
\<close>

lemma top_quotient:
  assumes "1 / 10 ^ 9 \<le> d" and "d \<le> 10 ^ 35"
  shows "\<exists>Q. fdiv (fmul (Fin 255) (Fin d)) (fadd (Fin d) eps32) = Fin Q \<and> 254 \<le> Q \<and> Q < 256"
proof -
  define \<epsilon> :: real where "\<epsilon> = 9223372 / 2 ^ 63"
  have dpos: "0 < d"
    using assms(1) by (rule less_le_trans [rotated]) simp
  have eps: "0 < \<epsilon>" "\<epsilon> \<le> d / 500"
    using assms(1) by (simp_all add: \<epsilon>_def)
  have tiny: "(2 :: real) powi (- 126) \<le> 1 / 1000000000"
    by (simp add: power_int_minus field_simps)
  have huge: "(256 :: real) * 100000000000000000000000000000000000 < 2 powi 127"
    by (simp add: power_int_def)
  have dr: "1 / 1000000000 \<le> d" "d \<le> 100000000000000000000000000000000000"
    using assms by simp_all
  have "2 powi (- 126) \<le> 255 * d" "255 * d < 2 powi 127"
    using dr tiny huge by linarith+
  from round32_rel_error [OF this] obtain n
    where n: "round32 (255 * d) = Fin n" "\<bar>n - 255 * d\<bar> \<le> 255 * d / 2 ^ 24" "0 < n"
    by blast
  have "2 powi (- 126) \<le> d + \<epsilon>" "d + \<epsilon> < 2 powi 127"
    using dr eps tiny huge by linarith+
  from round32_rel_error [OF this] obtain D
    where D: "round32 (d + \<epsilon>) = Fin D" "\<bar>D - (d + \<epsilon>)\<bar> \<le> (d + \<epsilon>) / 2 ^ 24" "0 < D"
    by blast
  have "\<bar>n - 255 * d\<bar> \<le> 255 * d / 16777216"
    using n(2) by simp
  hence n_lo: "2549 / 10 * d \<le> n" and n_hi: "n \<le> 2551 / 10 * d"
    using dpos by linarith+
  have "\<bar>D - (d + \<epsilon>)\<bar> \<le> (d + \<epsilon>) / 16777216"
    using D(2) by simp
  hence "D - (d + \<epsilon>) \<le> (d + \<epsilon>) / 16777216" "(d + \<epsilon>) - D \<le> (d + \<epsilon>) / 16777216"
    by linarith+
  moreover have "\<epsilon> \<le> d * (1 / 500)"
    using eps(2) by simp
  ultimately have D_lo: "9999 / 10000 * d \<le> D" and D_hi: "D \<le> 10031 / 10000 * d"
    using dpos eps(1) unfolding add_divide_distrib by linarith+
  have q_lo: "2541 / 10 \<le> n / D"
    using n_lo D_hi D(3) dpos by (simp add: pos_le_divide_eq)
  have q_hi: "n / D \<le> 2552 / 10"
    using n_hi D_lo D(3) dpos by (simp add: pos_divide_le_eq)
  have "2 powi (- 126) \<le> n / D" "n / D < 2 powi 127"
    using q_lo q_hi tiny huge by linarith+
  from round32_rel_error [OF this] obtain Q
    where Q: "round32 (n / D) = Fin Q" "\<bar>Q - n / D\<bar> \<le> n / D / 2 ^ 24"
    by blast
  have "n / D / 2 ^ 24 \<le> 1 / 1000"
    using q_hi by simp
  with Q(2) q_lo q_hi have "254 \<le> Q" "Q < 256"
    by (simp_all add: abs_le_iff)
  moreover have "fdiv (fmul (Fin 255) (Fin d)) (fadd (Fin d) eps32) = Fin Q"
    using n(1) D(1) D(3) Q(1) by (simp add: eps32_value \<epsilon>_def)
  ultimately show ?thesis by blast
qed

text \<open>
  A map whose values are all finite has a finite maximum and minimum, which are among its
  values. At the minimum the numerator is exactly 0 and the denominator is positive or
  infinite, so the quotient is 0.
\<close>

lemma is_finiteE: "is_finite x \<Longrightarrow> \<exists>a. x = Fin a"
  by (cases x) (simp_all add: is_finite_def)

lemma finite_map_Fin: "list_all is_finite m \<Longrightarrow> \<exists>as. m = map Fin as"
proof (induction m)
  case Nil
  then show ?case by simp
next
  case (Cons x m)
  then obtain a as where "x = Fin a" "m = map Fin as"
    using is_finiteE [of x] by auto
  then have "x # m = map Fin (a # as)" by simp
  then show ?case by (rule exI)
qed

lemma foldl_fmax_Fin:
  "\<exists>M. foldl fmax (Fin a) (map Fin as) = Fin M \<and> M \<in> set (a # as) \<and> (\<forall>x\<in>set (a # as). x \<le> M)"
proof (induction as arbitrary: a)
  case Nil
  then show ?case by simp
next
  case (Cons b as)
  have step: "fmax (Fin a) (Fin b) = Fin (max a b)"
    by (simp add: fmax_def max_def)
  from Cons [of "max a b"] obtain M
    where M: "foldl fmax (Fin (max a b)) (map Fin as) = Fin M" "M \<in> set (max a b # as)"
      "\<forall>x\<in>set (max a b # as). x \<le> M"
    by blast
  from M(2) have "M \<in> set (a # b # as)" by (auto simp: max_def split: if_splits)
  moreover from M(3) have "\<forall>x\<in>set (a # b # as). x \<le> M" by auto
  ultimately show ?case using M(1) step by auto
qed

lemma foldl_fmin_Fin:
  "\<exists>M. foldl fmin (Fin a) (map Fin as) = Fin M \<and> M \<in> set (a # as) \<and> (\<forall>x\<in>set (a # as). M \<le> x)"
proof (induction as arbitrary: a)
  case Nil
  then show ?case by simp
next
  case (Cons b as)
  have step: "fmin (Fin a) (Fin b) = Fin (min a b)"
    by (simp add: fmin_def min_def)
  from Cons [of "min a b"] obtain M
    where M: "foldl fmin (Fin (min a b)) (map Fin as) = Fin M" "M \<in> set (min a b # as)"
      "\<forall>x\<in>set (min a b # as). M \<le> x"
    by blast
  from M(2) have "M \<in> set (a # b # as)" by (auto simp: min_def split: if_splits)
  moreover from M(3) have "\<forall>x\<in>set (a # b # as). M \<le> x" by auto
  ultimately show ?case using M(1) step by auto
qed

lemma finite_extremes:
  assumes "m \<noteq> []" and "list_all is_finite m"
  shows "\<exists>Mx Mn. max_value m = Fin Mx \<and> min_value m = Fin Mn \<and> Fin Mx \<in> set m \<and> Fin Mn \<in> set m \<and>
           (\<forall>v\<in>set m. \<exists>a. v = Fin a \<and> Mn \<le> a \<and> a \<le> Mx)"
proof -
  from finite_map_Fin [OF assms(2)] assms(1) obtain a as where m: "m = map Fin (a # as)"
    by (metis list.map_disc_iff list.exhaust)
  from foldl_fmax_Fin [of a as] obtain Mx
    where Mx: "foldl fmax (Fin a) (map Fin as) = Fin Mx" "Mx \<in> set (a # as)" "\<forall>x\<in>set (a # as). x \<le> Mx"
    by blast
  from foldl_fmin_Fin [of a as] obtain Mn
    where Mn: "foldl fmin (Fin a) (map Fin as) = Fin Mn" "Mn \<in> set (a # as)" "\<forall>x\<in>set (a # as). Mn \<le> x"
    by blast
  have "max_value m = Fin Mx" "min_value m = Fin Mn"
    using Mx(1) Mn(1) by (simp_all add: m max_value_def min_value_def)
  moreover have "Fin Mx \<in> set m" "Fin Mn \<in> set m"
    unfolding m using Mx(2) Mn(2) by (simp_all only: set_map imageI)
  moreover have "\<forall>v\<in>set m. \<exists>a. v = Fin a \<and> Mn \<le> a \<and> a \<le> Mx"
    unfolding m using Mx(3) Mn(3) by auto
  ultimately show ?thesis by blast
qed

lemma round32_zero: "round32 0 = Fin 0"
  by (simp add: round32_def)

lemma eps32_ge: "2 powi (- 126) \<le> (9223372 / 2 ^ 63 :: real)"
  by (simp add: power_int_minus field_simps)

lemma scaled_min:
  assumes "Mn \<le> Mx"
  shows "fdiv (fmul (Fin 255) (fsub (Fin Mn) (Fin Mn))) (fadd (fsub (Fin Mx) (Fin Mn)) eps32) = Fin 0"
proof -
  have num: "fmul (Fin 255) (fsub (Fin Mn) (Fin Mn)) = Fin 0"
    by (simp add: fsub_def round32_zero)
  have "0 \<le> Mx - Mn" using assms by simp
  from round32_nonneg [OF this]
  have "fadd (fsub (Fin Mx) (Fin Mn)) eps32 = PInf \<or>
        (\<exists>D>0. fadd (fsub (Fin Mx) (Fin Mn)) eps32 = Fin D)"
  proof
    assume "\<exists>y\<ge>0. round32 (Mx - Mn) = Fin y"
    then obtain y where y: "0 \<le> y" "round32 (Mx - Mn) = Fin y" by blast
    have "2 powi (- 126) \<le> y + 9223372 / 2 ^ 63"
      using eps32_ge y(1) by linarith
    from round32_pos [OF this] show ?thesis
      using y(2) by (auto simp: fsub_def eps32_value)
  next
    assume "round32 (Mx - Mn) = PInf"
    then show ?thesis by (simp add: fsub_def eps32_value)
  qed
  then show ?thesis
    unfolding num by (auto simp: round32_zero)
qed

lemma unat_to_uint8:
  assumes "0 \<le> x" and "x < 256"
  shows "unat (to_uint8 (Fin x)) = nat \<lfloor>x\<rfloor>"
proof -
  have "0 \<le> \<lfloor>x\<rfloor>" using assms(1) by simp
  moreover have "\<lfloor>x\<rfloor> < 256" using assms(2) by (simp add: floor_less_iff)
  ultimately have "unat (word_of_int \<lfloor>x\<rfloor> :: 8 word) = nat \<lfloor>x\<rfloor>"
    by (simp add: unat_eq_nat_uint uint_word_of_int take_bit_int_eq_self)
  with assms(1) show ?thesis by simp
qed

lemma row_bytes:
  assumes "m \<noteq> []" and "list_all is_finite m"
  defines "bytes \<equiv> map (\<lambda>v. to_uint8 (fdiv (fmul (Fin 255) (fsub v (min_value m)))
                                   (fadd (fsub (max_value m) (min_value m)) eps32))) m"
  shows "0 \<in> set bytes"
    and "fsub (max_value m) (min_value m) = Fin d \<Longrightarrow> 1 / 10 ^ 9 \<le> d \<Longrightarrow> d \<le> 10 ^ 35 \<Longrightarrow>
           \<exists>x\<in>set bytes. 254 \<le> unat x"
    and "max_value m = min_value m \<Longrightarrow> bytes = replicate (length m) 0"
proof -
  from finite_extremes [OF assms(1,2)] obtain Mx Mn
    where e: "max_value m = Fin Mx" "min_value m = Fin Mn" "Fin Mx \<in> set m" "Fin Mn \<in> set m"
      "\<forall>v\<in>set m. \<exists>a. v = Fin a \<and> Mn \<le> a \<and> a \<le> Mx"
    by blast
  let ?f = "\<lambda>v. to_uint8 (fdiv (fmul (Fin 255) (fsub v (Fin Mn))) (fadd (fsub (Fin Mx) (Fin Mn)) eps32))"
  have bytes: "bytes = map ?f m"
    by (simp add: bytes_def e(1,2))
  have img: "set bytes = ?f ` set m"
    by (simp add: bytes)
  from e(4,5) have le: "Mn \<le> Mx" by fastforce
  have "?f (Fin Mn) \<in> set bytes"
    unfolding img using e(4) by (rule imageI)
  then show "0 \<in> set bytes"
    by (simp add: scaled_min [OF le])
  show "\<exists>x\<in>set bytes. 254 \<le> unat x"
    if "fsub (max_value m) (min_value m) = Fin d" "1 / 10 ^ 9 \<le> d" "d \<le> 10 ^ 35"
  proof -
    from top_quotient [OF that(2,3)] obtain Q
      where Q: "fdiv (fmul (Fin 255) (Fin d)) (fadd (Fin d) eps32) = Fin Q" "254 \<le> Q" "Q < 256"
      by blast
    have "?f (Fin Mx) = to_uint8 (Fin Q)"
      using that(1) Q(1) by (simp add: e(1,2))
    moreover have "unat (to_uint8 (Fin Q)) = nat \<lfloor>Q\<rfloor>"
      using Q(2,3) by (intro unat_to_uint8) simp_all
    moreover have "254 \<le> nat \<lfloor>Q\<rfloor>"
      using Q(2) by (simp add: le_nat_iff le_floor_iff)
    moreover have "?f (Fin Mx) \<in> set bytes"
      unfolding img using e(3) by (rule imageI)
    ultimately show ?thesis by metis
  qed
  show "bytes = replicate (length m) 0" if "max_value m = min_value m"
  proof -
    from that e(1,2) have eq: "Mx = Mn" by simp
    have "v = Fin Mn" if "v \<in> set m" for v
      using e(5) that eq by fastforce
    then have "bytes = map (\<lambda>_. 0) m"
      unfolding bytes using scaled_min [OF le] by (intro map_cong) simp_all
    then show ?thesis
      by (simp add: map_replicate_const)
  qed
qed

text \<open>
  The roundings that occur in the evaluations below: each is the number rounded to 24
  significant bits at the exponent given.
\<close>

lemma round32_values:
  shows "round32 (- 2) = Fin (- 2)"
    and "round32 (- 1) = Fin (- 1)"
    and "round32 (2305843 / 2305843009213693952) = Fin (2305843 / 2305843009213693952)"
    and "round32 (1 / 1000000000000) = Fin (2305843 / 2305843009213693952)"
    and "round32 (2305843 / 1152921504606846976) = Fin (2305843 / 1152921504606846976)"
    and "round32 (587989965 / 2305843009213693952) = Fin (9187343 / 36028797018963968)"
    and "round32 1 = Fin 1"
    and "round32 (2305843009215999795 / 2305843009213693952) = Fin 1"
    and "round32 2 = Fin 2"
    and "round32 (4611686018429693747 / 2305843009213693952) = Fin 2"
    and "round32 3 = Fin 3"
    and "round32 4 = Fin 4"
    and "round32 (9223372036857081651 / 2305843009213693952) = Fin 4"
    and "round32 5 = Fin 5"
    and "round32 6 = Fin 6"
    and "round32 7 = Fin 7"
    and "round32 8 = Fin 8"
    and "round32 (293994976 / 2305843) = Fin (255 / 2)"
    and "round32 (536872640 / 2105383) = Fin (16711679 / 65536)"
    and "round32 255 = Fin 255"
    and "round32 510 = Fin 510"
    and "round32 1020 = Fin 1020"
    and "round32 8421532 = Fin 8421532"
    and "round32 (19418730689069418457280307 / 2305843009213693952) = Fin 8421532"
    and "round32 2147490660 = Fin 2147490560"
proof -
  show "round32 (- 2) = Fin (- 2)"
    using round32_at [of "1" "- 2"]
    by (simp add: rne_def Let_def power_int_def power_one_over)
  show "round32 (- 1) = Fin (- 1)"
    using round32_at [of "0" "- 1"]
    by (simp add: rne_def Let_def power_int_def power_one_over)
  show "round32 (2305843 / 2305843009213693952) = Fin (2305843 / 2305843009213693952)"
    using round32_at [of "- 40" "2305843 / 2305843009213693952"]
    by (simp add: rne_def Let_def power_int_def power_one_over)
  show "round32 (1 / 1000000000000) = Fin (2305843 / 2305843009213693952)"
    using round32_at [of "- 40" "1 / 1000000000000"]
    by (simp add: rne_def Let_def power_int_def power_one_over)
  show "round32 (2305843 / 1152921504606846976) = Fin (2305843 / 1152921504606846976)"
    using round32_at [of "- 39" "2305843 / 1152921504606846976"]
    by (simp add: rne_def Let_def power_int_def power_one_over)
  show "round32 (587989965 / 2305843009213693952) = Fin (9187343 / 36028797018963968)"
    using round32_at [of "- 32" "587989965 / 2305843009213693952"]
    by (simp add: rne_def Let_def power_int_def power_one_over)
  show "round32 1 = Fin 1"
    using round32_at [of "0" "1"]
    by (simp add: rne_def Let_def power_int_def power_one_over)
  show "round32 (2305843009215999795 / 2305843009213693952) = Fin 1"
    using round32_at [of "0" "2305843009215999795 / 2305843009213693952"]
    by (simp add: rne_def Let_def power_int_def power_one_over)
  show "round32 2 = Fin 2"
    using round32_at [of "1" "2"]
    by (simp add: rne_def Let_def power_int_def power_one_over)
  show "round32 (4611686018429693747 / 2305843009213693952) = Fin 2"
    using round32_at [of "1" "4611686018429693747 / 2305843009213693952"]
    by (simp add: rne_def Let_def power_int_def power_one_over)
  show "round32 3 = Fin 3"
    using round32_at [of "1" "3"]
    by (simp add: rne_def Let_def power_int_def power_one_over)
  show "round32 4 = Fin 4"
    using round32_at [of "2" "4"]
    by (simp add: rne_def Let_def power_int_def power_one_over)
  show "round32 (9223372036857081651 / 2305843009213693952) = Fin 4"
    using round32_at [of "2" "9223372036857081651 / 2305843009213693952"]
    by (simp add: rne_def Let_def power_int_def power_one_over)
  show "round32 5 = Fin 5"
    using round32_at [of "2" "5"]
    by (simp add: rne_def Let_def power_int_def power_one_over)
  show "round32 6 = Fin 6"
    using round32_at [of "2" "6"]
    by (simp add: rne_def Let_def power_int_def power_one_over)
  show "round32 7 = Fin 7"
    using round32_at [of "2" "7"]
    by (simp add: rne_def Let_def power_int_def power_one_over)
  show "round32 8 = Fin 8"
    using round32_at [of "3" "8"]
    by (simp add: rne_def Let_def power_int_def power_one_over)
  show "round32 (293994976 / 2305843) = Fin (255 / 2)"
    using round32_at [of "6" "293994976 / 2305843"]
    by (simp add: rne_def Let_def power_int_def power_one_over)
  show "round32 (536872640 / 2105383) = Fin (16711679 / 65536)"
    using round32_at [of "7" "536872640 / 2105383"]
    by (simp add: rne_def Let_def power_int_def power_one_over)
  show "round32 255 = Fin 255"
    using round32_at [of "7" "255"]
    by (simp add: rne_def Let_def power_int_def power_one_over)
  show "round32 510 = Fin 510"
    using round32_at [of "8" "510"]
    by (simp add: rne_def Let_def power_int_def power_one_over)
  show "round32 1020 = Fin 1020"
    using round32_at [of "9" "1020"]
    by (simp add: rne_def Let_def power_int_def power_one_over)
  show "round32 8421532 = Fin 8421532"
    using round32_at [of "23" "8421532"]
    by (simp add: rne_def Let_def power_int_def power_one_over)
  show "round32 (19418730689069418457280307 / 2305843009213693952) = Fin 8421532"
    using round32_at [of "23" "19418730689069418457280307 / 2305843009213693952"]
    by (simp add: rne_def Let_def power_int_def power_one_over)
  show "round32 2147490660 = Fin 2147490560"
    using round32_at [of "31" "2147490660"]
    by (simp add: rne_def Let_def power_int_def power_one_over)
qed

lemmas pipeline = SaliencyMapHook_func_def size4_def mean_dim1_def reshape3_def rows_def
  normalize_def fmean_def fsum_def fsub_def max_value_def min_value_def fmax_def fmin_def
  eps32_def upt_rec getitem_def round32_zero round32_values

lemmas eigen = EigenCamHook_func_def centered_fmap_def project_V0_def astype_float32_def

section \<open>Properties of the channel-averaging transform\<close>

lemma take_drop_concat:
  assumes "\<forall>xs\<in>set xss. length xs = n" and "b < length xss"
  shows "take n (drop (b * n) (concat xss)) = xss ! b"
  using assms
proof (induction xss arbitrary: b)
  case Nil
  then show ?case by simp
next
  case (Cons xs xss)
  then have len: "length xs = n" by simp
  show ?case
  proof (cases b)
    case 0
    with len show ?thesis by simp
  next
    case (Suc k)
    with Cons.prems have "take n (drop (k * n) (concat xss)) = xss ! k"
      by (intro Cons.IH) auto
    with Suc len show ?thesis by (simp add: add.commute)
  qed
qed

lemma normalize_rows:
  "normalize sm =
     map (\<lambda>r. map (\<lambda>v. fdiv (fmul (Fin 255) (fsub v (min_value r)))
                         (fadd (fsub (max_value r) (min_value r)) eps32)) r) sm"
  unfolding normalize_def Let_def
  by (induction sm) simp_all

lemma length_mean_dim1 [simp]: "length (mean_dim1 hw x) = length x"
  by (simp add: mean_dim1_def)

lemma length_reshape3 [simp]: "length (reshape3 bs c hw xs) = bs"
  by (simp add: reshape3_def)

lemma length_nth_mean_dim1: "b < length x \<Longrightarrow> length (mean_dim1 hw x ! b) = hw"
  by (simp add: mean_dim1_def)

lemma SaliencyMapHook_func_single:
  assumes "shape t = [bs, c, h, w]" and "0 < h * w"
  shows "SaliencyMapHook_func (Single t) i =
           Inr \<lparr>shape = [bs, h, w],
                data = map to_uint8 (concat (normalize
                         (mean_dim1 (h * w) (reshape3 bs c (h * w) (data t)))))\<rparr>"
  using assms by (simp add: SaliencyMapHook_func_def size4_def)

lemma nth_unbind_rows:
  assumes "\<forall>r\<in>set sm. length r = h * w" and "b < length sm"
  shows "data (unbind \<lparr>shape = [length sm, h, w], data = map f (concat sm)\<rparr> ! b) = map f (sm ! b)"
proof -
  have "take (h * w) (drop (b * (h * w)) (concat sm)) = sm ! b"
    by (rule take_drop_concat [OF assms])
  then show ?thesis
    using assms(2) by (simp add: nth_unbind numel_def take_map drop_map)
qed

lemma normalized_example:
  assumes "length sm = bs" and "\<forall>r\<in>set sm. length r = h * w" and "b < bs"
  defines "out \<equiv> \<lparr>shape = [bs, h, w], data = map to_uint8 (concat (normalize sm))\<rparr>"
  shows "unbind out ! b =
           \<lparr>shape = [h, w],
            data = map (\<lambda>v. to_uint8 (fdiv (fmul (Fin 255) (fsub v (min_value (sm ! b))))
                      (fadd (fsub (max_value (sm ! b)) (min_value (sm ! b))) eps32))) (sm ! b)\<rparr>"
proof -
  let ?n = "normalize sm"
  have len: "length ?n = bs"
    using assms(1) by (simp add: normalize_rows)
  have rows_len: "\<forall>r\<in>set ?n. length r = h * w"
    using assms(2) by (auto simp: normalize_rows)
  have "data (unbind \<lparr>shape = [length ?n, h, w], data = map to_uint8 (concat ?n)\<rparr> ! b)
          = map to_uint8 (?n ! b)"
    using assms(3) len by (intro nth_unbind_rows [OF rows_len]) simp
  moreover have "?n ! b = map (\<lambda>v. fdiv (fmul (Fin 255) (fsub v (min_value (sm ! b))))
                      (fadd (fsub (max_value (sm ! b)) (min_value (sm ! b))) eps32)) (sm ! b)"
    using assms(1,3) by (simp add: normalize_rows)
  moreover have "shape (unbind out ! b) = [h, w]"
    using assms(3) by (simp add: out_def nth_unbind)
  ultimately show ?thesis
    using len by (simp add: out_def comp_def tensor.equality)
qed

lemma saliency_example:
  assumes "shape t = [bs, c, h, w]" and "0 < h * w" and "b < bs"
  defines "m \<equiv> mean_dim1 (h * w) (reshape3 bs c (h * w) (data t)) ! b"
  shows "\<exists>out. SaliencyMapHook_func (Single t) i = Inr out \<and> shape out = [bs, h, w] \<and>
           unbind out ! b =
             \<lparr>shape = [h, w],
              data = map (\<lambda>v. to_uint8 (fdiv (fmul (Fin 255) (fsub v (min_value m)))
                        (fadd (fsub (max_value m) (min_value m)) eps32))) m\<rparr>"
    and "length m = h * w"
proof -
  let ?sm = "mean_dim1 (h * w) (reshape3 bs c (h * w) (data t))"
  have len: "length ?sm = bs" by simp
  have rows_len: "\<forall>r\<in>set ?sm. length r = h * w"
    by (auto simp: mean_dim1_def)
  from normalized_example [OF len rows_len assms(3)]
    SaliencyMapHook_func_single [OF assms(1,2), of i]
  show "\<exists>out. SaliencyMapHook_func (Single t) i = Inr out \<and> shape out = [bs, h, w] \<and>
           unbind out ! b =
             \<lparr>shape = [h, w],
              data = map (\<lambda>v. to_uint8 (fdiv (fmul (Fin 255) (fsub v (min_value m)))
                        (fadd (fsub (max_value m) (min_value m)) eps32))) m\<rparr>"
    by (simp add: m_def)
  show "length m = h * w"
    using assms(3) by (simp add: m_def length_nth_mean_dim1)
qed

text \<open>
  Claim C7. On the tensor of shape \<open>1 \<times> 2 \<times> 2 \<times> 2\<close> whose channel 0 is constantly 1 and
  whose channel 1 is constantly 3, the channel average is constantly 2 and the transform
  returns the all-zero byte map of shape \<open>1 \<times> 2 \<times> 2\<close>. More generally, for a 4-D tensor
  with at least one position, an example whose channel-averaged map is finite and has its
  maximum equal to its minimum gets the all-zero byte map: the float32 difference of a value
  and the minimum is exactly 0 there, and 0 divided by the rounded epsilon is 0.
\<close>

theorem flat_map_is_zero:
  assumes "shape t = [bs, c, h, w]" and "0 < h * w" and "b < bs"
    and "list_all is_finite (mean_dim1 (h * w) (reshape3 bs c (h * w) (data t)) ! b)"
    and "max_value (mean_dim1 (h * w) (reshape3 bs c (h * w) (data t)) ! b) =
         min_value (mean_dim1 (h * w) (reshape3 bs c (h * w) (data t)) ! b)"
  shows "mean_dim1 4 (reshape3 1 2 4 [Fin 1, Fin 1, Fin 1, Fin 1, Fin 3, Fin 3, Fin 3, Fin 3]) =
           [[Fin 2, Fin 2, Fin 2, Fin 2]] \<and>
         SaliencyMapHook_func
           (Single \<lparr>shape = [1, 2, 2, 2],
                    data = [Fin 1, Fin 1, Fin 1, Fin 1, Fin 3, Fin 3, Fin 3, Fin 3]\<rparr>) 0 =
           Inr \<lparr>shape = [1, 2, 2], data = [0, 0, 0, 0]\<rparr> \<and>
         (\<exists>out. SaliencyMapHook_func (Single t) i = Inr out \<and> shape out = [bs, h, w] \<and>
            unbind out ! b = \<lparr>shape = [h, w], data = replicate (h * w) 0\<rparr>)"
proof (intro conjI)
  show "mean_dim1 4 (reshape3 1 2 4 [Fin 1, Fin 1, Fin 1, Fin 1, Fin 3, Fin 3, Fin 3, Fin 3]) =
          [[Fin 2, Fin 2, Fin 2, Fin 2]]"
    by (simp add: pipeline)
  show "SaliencyMapHook_func
          (Single \<lparr>shape = [1, 2, 2, 2],
                   data = [Fin 1, Fin 1, Fin 1, Fin 1, Fin 3, Fin 3, Fin 3, Fin 3]\<rparr>) 0 =
          Inr \<lparr>shape = [1, 2, 2], data = [0, 0, 0, 0]\<rparr>"
    by (simp add: pipeline)
  let ?m = "mean_dim1 (h * w) (reshape3 bs c (h * w) (data t)) ! b"
  from saliency_example(1) [OF assms(1-3), of i] saliency_example(2) [OF assms(1-3)]
  obtain out where out: "SaliencyMapHook_func (Single t) i = Inr out" "shape out = [bs, h, w]"
    "unbind out ! b =
       \<lparr>shape = [h, w],
        data = map (\<lambda>v. to_uint8 (fdiv (fmul (Fin 255) (fsub v (min_value ?m)))
                  (fadd (fsub (max_value ?m) (min_value ?m)) eps32))) ?m\<rparr>"
    and len: "length ?m = h * w"
    by blast
  from len assms(2) have ne: "?m \<noteq> []" by auto
  have "unbind out ! b = \<lparr>shape = [h, w], data = replicate (h * w) 0\<rparr>"
    using row_bytes(3) [OF ne assms(4,5)] out(3) len by simp
  with out(1,2) show "\<exists>out. SaliencyMapHook_func (Single t) i = Inr out \<and> shape out = [bs, h, w] \<and>
            unbind out ! b = \<lparr>shape = [h, w], data = replicate (h * w) 0\<rparr>"
    by blast
qed

theorem flat_map_is_zero_witness:
  "\<exists>out. SaliencyMapHook_func
          (Single \<lparr>shape = [2, 2, 1, 2],
                   data = [Fin 1, Fin 2, Fin 5, Fin 4, Fin 0, Fin 0, Fin 0, Fin 8]\<rparr>) 0 = Inr out \<and>
     shape out = [2, 1, 2] \<and> unbind out ! 0 = \<lparr>shape = [1, 2], data = [0, 0]\<rparr>"
  using flat_map_is_zero [of "\<lparr>shape = [2, 2, 1, 2],
      data = [Fin 1, Fin 2, Fin 5, Fin 4, Fin 0, Fin 0, Fin 0, Fin 8]\<rparr>" 2 2 1 2 0 0]
  by (simp add: mean_dim1_def reshape3_def rows_def fmean_def fsum_def max_value_def min_value_def
      fmax_def fmin_def upt_rec round32_zero round32_values is_finite_def numeral_2_eq_2)

text \<open>
  Claim C1. A hook built with \<open>_fpn_idx = 1\<close> over a stage that yields three tensors of
  spatial sizes \<open>1 \<times> 2\<close>, \<open>1 \<times> 1\<close> and \<open>2 \<times> 2\<close> records the transform of the first
  tensor (a map of shape \<open>1 \<times> 1 \<times> 2\<close>), where the transform of the second tensor, which
  \<open>func\<close> with index 1 computes, is a map of shape \<open>1 \<times> 1 \<times> 1\<close>: the callback never
  passes the hook's index to \<open>func\<close>.
\<close>

theorem recording_ignores_fpn_idx:
  "recording_forward (SaliencyMapHook 1)
     (Sequence [\<lparr>shape = [1, 1, 1, 2], data = [Fin 5, Fin 5]\<rparr>,
                \<lparr>shape = [1, 1, 1, 1], data = [Fin 7]\<rparr>,
                \<lparr>shape = [1, 1, 2, 2], data = [Fin 1, Fin 1, Fin 1, Fin 1]\<rparr>]) =
     Inr ((SaliencyMapHook 1)\<lparr>records := [\<lparr>shape = [1, 1, 2], data = [0, 0]\<rparr>]\<rparr>) \<and>
   SaliencyMapHook_func (Single \<lparr>shape = [1, 1, 1, 1], data = [Fin 7]\<rparr>) 0 =
     Inr \<lparr>shape = [1, 1, 1], data = [0]\<rparr> \<and>
   SaliencyMapHook_func
     (Sequence [\<lparr>shape = [1, 1, 1, 2], data = [Fin 5, Fin 5]\<rparr>,
                \<lparr>shape = [1, 1, 1, 1], data = [Fin 7]\<rparr>,
                \<lparr>shape = [1, 1, 2, 2], data = [Fin 1, Fin 1, Fin 1, Fin 1]\<rparr>]) 1 =
     Inr \<lparr>shape = [1, 1, 1], data = [0]\<rparr> \<and>
   fpn_idx (SaliencyMapHook 1) = 1"
  by (simp add: recording_forward_def SaliencyMapHook_def BaseAuxiliaryHook_def len_def pipeline)

text \<open>
  Claim C9. On an empty list of activation tensors the feature-vector transform raises the
  RuntimeError of \<open>torch.cat\<close>, and the callback of a \<open>FeatureVectorHook\<close> passes it on
  without recording anything.
\<close>

theorem empty_sequence_is_error:
  "FeatureVectorHook_func (Sequence []) = Inl RuntimeError \<and>
   recording_forward FeatureVectorHook (Sequence []) = Inl RuntimeError"
  by (simp add: FeatureVectorHook_func_def cat1_def recording_forward_def FeatureVectorHook_def
      BaseAuxiliaryHook_def)

section \<open>Properties of the feature-vector transform\<close>

lemma rows_replicate: "rows k n (replicate (k * n) v) = replicate k (replicate n v)"
proof -
  have "take n (drop (i * n) (replicate (k * n) v)) = replicate n v" if "i < k" for i
  proof -
    from that have "n \<le> (k - i) * n" by (cases "k - i") simp_all
    then have "min n (k * n - i * n) = n" by (simp add: diff_mult_distrib)
    then show ?thesis by simp
  qed
  then have "rows k n (replicate (k * n) v) = map (\<lambda>_. replicate n v) [0..<k]"
    unfolding rows_def by (intro map_cong) simp_all
  then show ?thesis by (simp add: map_replicate_const)
qed

lemma length_nth_rows:
  assumes "length xs = k * n" and "i < k"
  shows "length (rows k n xs ! i) = n"
proof -
  from assms(2) have "n \<le> (k - i) * n" by (cases "k - i") simp_all
  then have "min (k * n - i * n) n = n" by (simp add: diff_mult_distrib)
  with assms show ?thesis by (simp add: nth_rows)
qed

lemma pool_ok:
  assumes "shape f = [bs, c, h, w]" and "0 < c" and "0 < h * w"
  shows "\<exists>p. adaptive_avg_pool2d f = Inr p \<and> shape p = [bs, c, 1, 1] \<and> length (data p) = bs * c"
  using assms by (simp add: adaptive_avg_pool2d_def)

lemma map_result_all_Inr:
  assumes "\<forall>x\<in>set xs. \<exists>y. f x = Inr y"
  shows "map_result f xs = Inr (map (\<lambda>x. projr (f x)) xs)"
  using assms
proof (induction xs)
  case Nil
  then show ?case by simp
next
  case (Cons x xs)
  then obtain y where "f x = Inr y" by auto
  with Cons show ?case by simp
qed

lemma cat1_pooled:
  assumes "ps \<noteq> []" and "\<forall>p\<in>set ps. \<exists>c. shape p = [bs, c, 1, 1]"
  shows "cat1 ps = Inr \<lparr>shape = [bs, (\<Sum>p\<leftarrow>ps. shape p ! 1), 1, 1],
           data = concat (map (\<lambda>b. concat (map (\<lambda>p. rows bs (shape p ! 1) (data p) ! b) ps)) [0..<bs])\<rparr>"
proof -
  from assms(1) obtain p ps' where ps: "ps = p # ps'" by (cases ps) auto
  with assms(2) obtain c where p: "shape p = [bs, c, 1, 1]" by auto
  have "list_all (\<lambda>u. length (shape u) = length (shape p) \<and> hd (shape u) = bs \<and>
                        drop 2 (shape u) = [1, 1]) (p # ps')"
    using assms(2) p unfolding ps list_all_iff by auto
  then show ?thesis
    unfolding cat1_def ps using p by (simp only: list.case if_True) (simp add: numel_def)
qed

lemma pool_const:
  assumes "shape t = [bs, c, h, w]" and "0 < c" and "0 < h * w"
    and "wf_tensor t" and "\<forall>x\<in>set (data t). x = v"
  shows "adaptive_avg_pool2d t = Inr \<lparr>shape = [bs, c, 1, 1], data = replicate (bs * c) v\<rparr>"
proof -
  have "data t = replicate (length (data t)) v"
    using assms(5) by (simp add: replicate_length_same)
  also have "length (data t) = (bs * c) * (h * w)"
    using assms(1,4) by (simp add: wf_tensor_def numel_def mult.assoc)
  finally have "rows (bs * c) (h * w) (data t) = replicate (bs * c) (replicate (h * w) v)"
    by (simp only: rows_replicate)
  moreover have "sum_list (replicate (h * w) v) / real (h * w) = v"
    using assms(3) by (simp add: sum_list_replicate)
  ultimately show ?thesis
    using assms(1-3) by (simp add: adaptive_avg_pool2d_def)
qed

lemma unbind_pooled:
  assumes "shape p = [bs, c, 1, 1]" and "k < bs"
  shows "data (unbind p ! k) = rows bs (shape p ! 1) (data p) ! k"
  using assms by (simp add: nth_unbind nth_rows numel_def)

lemma sequence_vector:
  assumes "fs \<noteq> []"
    and "\<forall>f\<in>set fs. \<exists>c h w. shape f = [bs, c, h, w] \<and> 0 < c \<and> 0 < h * w"
    and "k < bs"
  shows "\<exists>out. FeatureVectorHook_func (Sequence fs) = Inr out \<and>
           shape out = [bs, (\<Sum>f\<leftarrow>fs. shape f ! 1), 1, 1] \<and>
           data (unbind out ! k) =
             concat (map (\<lambda>f. case FeatureVectorHook_func (Single f) of
                                 Inr p \<Rightarrow> data (unbind p ! k) | Inl e \<Rightarrow> []) fs) \<and>
           length (data (unbind out ! k)) = (\<Sum>f\<leftarrow>fs. shape f ! 1)"
proof -
  define P where "P = (\<lambda>f. projr (adaptive_avg_pool2d f))"
  have pool: "adaptive_avg_pool2d f = Inr (P f) \<and> shape (P f) = [bs, shape f ! 1, 1, 1] \<and>
              length (data (P f)) = bs * (shape f ! 1)" if "f \<in> set fs" for f
  proof -
    from that assms(2) obtain c h w where "shape f = [bs, c, h, w]" "0 < c" "0 < h * w" by blast
    from pool_ok [OF this] \<open>shape f = [bs, c, h, w]\<close> show ?thesis by (auto simp: P_def)
  qed
  have mr: "map_result adaptive_avg_pool2d fs = Inr (map P fs)"
    unfolding P_def using pool by (intro map_result_all_Inr) blast
  have shapes: "\<forall>p\<in>set (map P fs). \<exists>c. shape p = [bs, c, 1, 1]"
    using pool by auto
  have csum: "(\<Sum>p\<leftarrow>map P fs. shape p ! 1) = (\<Sum>f\<leftarrow>fs. shape f ! 1)"
  proof -
    have "map (\<lambda>p. shape p ! 1) (map P fs) = map (\<lambda>f. shape f ! 1) fs"
      using pool by (simp add: comp_def cong: map_cong)
    then show ?thesis by (simp only:)
  qed
  define g where "g = (\<lambda>b. concat (map (\<lambda>p. rows bs (shape p ! 1) (data p) ! b) (map P fs)))"
  define out where "out = \<lparr>shape = [bs, (\<Sum>f\<leftarrow>fs. shape f ! 1), 1, 1],
                            data = concat (map g [0..<bs])\<rparr>"
  have cat: "cat1 (map P fs) = Inr out"
  proof -
    have "map P fs \<noteq> []" using assms(1) by simp
    from cat1_pooled [OF this shapes] show ?thesis
      unfolding out_def g_def csum .
  qed
  have fv: "FeatureVectorHook_func (Sequence fs) = Inr out"
    by (simp add: FeatureVectorHook_func_def mr cat)
  have glen: "length (g b) = (\<Sum>f\<leftarrow>fs. shape f ! 1)" if "b < bs" for b
  proof -
    have eq: "map (\<lambda>f. length (rows bs (shape (P f) ! 1) (data (P f)) ! b)) fs =
              map (\<lambda>f. shape f ! 1) fs"
    proof (rule map_cong [OF refl])
      fix f assume "f \<in> set fs"
      from pool [OF this] that show "length (rows bs (shape (P f) ! 1) (data (P f)) ! b) = shape f ! 1"
        by (simp add: length_nth_rows)
    qed
    have "length (g b) = sum_list (map (\<lambda>f. length (rows bs (shape (P f) ! 1) (data (P f)) ! b)) fs)"
      by (simp add: g_def length_concat comp_def)
    also have "\<dots> = (\<Sum>f\<leftarrow>fs. shape f ! 1)"
      by (simp only: eq)
    finally show ?thesis .
  qed
  have "take (\<Sum>f\<leftarrow>fs. shape f ! 1) (drop (k * (\<Sum>f\<leftarrow>fs. shape f ! 1)) (concat (map g [0..<bs])))
          = map g [0..<bs] ! k"
    using glen assms(3) by (intro take_drop_concat) auto
  then have slice: "data (unbind out ! k) = g k"
    using assms(3) by (simp add: out_def nth_unbind numel_def)
  have "g k = concat (map (\<lambda>f. case FeatureVectorHook_func (Single f) of
                                 Inr p \<Rightarrow> data (unbind p ! k) | Inl e \<Rightarrow> []) fs)"
  proof -
    have "rows bs (shape (P f) ! 1) (data (P f)) ! k =
            (case FeatureVectorHook_func (Single f) of Inr p \<Rightarrow> data (unbind p ! k) | Inl e \<Rightarrow> [])"
      if "f \<in> set fs" for f
      using pool [OF that] assms(3) by (simp add: FeatureVectorHook_func_def unbind_pooled)
    then have "map (\<lambda>f. rows bs (shape (P f) ! 1) (data (P f)) ! k) fs =
               map (\<lambda>f. case FeatureVectorHook_func (Single f) of
                            Inr p \<Rightarrow> data (unbind p ! k) | Inl e \<Rightarrow> []) fs"
      by (intro map_cong [OF refl])
    moreover have "g k = concat (map (\<lambda>f. rows bs (shape (P f) ! 1) (data (P f)) ! k) fs)"
      by (simp add: g_def comp_def)
    ultimately show ?thesis by (simp only:)
  qed
  with slice glen [OF assms(3)] fv show ?thesis
    by (intro exI [of _ out]) (simp add: out_def)
qed

text \<open>
  Claim C6. For a well-formed tensor of shape \<open>(B, C, H, W)\<close> with at least one channel and
  one position whose elements all equal \<open>v\<close>, the feature-vector transform succeeds and the
  vector of every example consists of \<open>C\<close> entries equal to \<open>v\<close>. For a non-empty list of
  4-D tensors with the same batch size, each with at least one channel and one position,
  it succeeds with a result of shape \<open>(bs, c\<^sub>1 + \<dots> + c\<^sub>n, 1, 1)\<close>; the vector of
  every example is the concatenation, in the order of the list, of the vectors the
  transform gives for the single tensors, so its length is the sum of the channel counts.
\<close>

theorem feature_vector_pooling:
  assumes "shape t = [B, C, H, W]" and "0 < C" and "0 < H * W"
    and "wf_tensor t" and "\<forall>x\<in>set (data t). x = v" and "b < B"
    and "fs \<noteq> []"
    and "\<forall>f\<in>set fs. \<exists>c h w. shape f = [bs, c, h, w] \<and> 0 < c \<and> 0 < h * w"
    and "k < bs"
  shows "(\<exists>out. FeatureVectorHook_func (Single t) = Inr out \<and>
            unbind out ! b = \<lparr>shape = [C, 1, 1], data = replicate C v\<rparr>) \<and>
         (\<exists>out. FeatureVectorHook_func (Sequence fs) = Inr out \<and>
            shape out = [bs, (\<Sum>f\<leftarrow>fs. shape f ! 1), 1, 1] \<and>
            data (unbind out ! k) =
              concat (map (\<lambda>f. case FeatureVectorHook_func (Single f) of
                                  Inr p \<Rightarrow> data (unbind p ! k) | Inl e \<Rightarrow> []) fs) \<and>
            length (data (unbind out ! k)) = (\<Sum>f\<leftarrow>fs. shape f ! 1))"
proof
  let ?out = "\<lparr>shape = [B, C, 1, 1], data = replicate (B * C) v\<rparr>"
  have fv: "FeatureVectorHook_func (Single t) = Inr ?out"
    using pool_const [OF assms(1-5)] by (simp add: FeatureVectorHook_func_def)
  from assms(6) have "C \<le> (B - b) * C" by (cases "B - b") simp_all
  then have "min (B * C - b * C) C = C" by (simp add: diff_mult_distrib)
  then have "unbind ?out ! b = \<lparr>shape = [C, 1, 1], data = replicate C v\<rparr>"
    using assms(6) by (simp add: nth_unbind numel_def)
  with fv show "\<exists>out. FeatureVectorHook_func (Single t) = Inr out \<and>
            unbind out ! b = \<lparr>shape = [C, 1, 1], data = replicate C v\<rparr>"
    by blast
  show "\<exists>out. FeatureVectorHook_func (Sequence fs) = Inr out \<and>
            shape out = [bs, (\<Sum>f\<leftarrow>fs. shape f ! 1), 1, 1] \<and>
            data (unbind out ! k) =
              concat (map (\<lambda>f. case FeatureVectorHook_func (Single f) of
                                  Inr p \<Rightarrow> data (unbind p ! k) | Inl e \<Rightarrow> []) fs) \<and>
            length (data (unbind out ! k)) = (\<Sum>f\<leftarrow>fs. shape f ! 1)"
    by (rule sequence_vector [OF assms(7-9)])
qed

theorem feature_vector_pooling_witness:
  "(\<exists>out. FeatureVectorHook_func (Single \<lparr>shape = [2, 2, 1, 2], data = [3, 3, 3, 3, 3, 3, 3, 3]\<rparr>) = Inr out \<and>
      unbind out ! 1 = \<lparr>shape = [2, 1, 1], data = [3, 3]\<rparr>) \<and>
   (\<exists>out. FeatureVectorHook_func (Sequence [\<lparr>shape = [1, 1, 1, 2], data = [1, 3]\<rparr>,
                                              \<lparr>shape = [1, 2, 1, 1], data = [5, 7]\<rparr>]) = Inr out \<and>
      shape out = [1, 3, 1, 1] \<and> data (unbind out ! 0) = [2, 5, 7])"
  using feature_vector_pooling [of "\<lparr>shape = [2, 2, 1, 2], data = [3, 3, 3, 3, 3, 3, 3, 3]\<rparr>" 2 2 1 2 3 1
      "[\<lparr>shape = [1, 1, 1, 2], data = [1, 3]\<rparr>, \<lparr>shape = [1, 2, 1, 1], data = [5, 7]\<rparr>]" 1 0]
  by (simp add: wf_tensor_def numel_def FeatureVectorHook_func_def adaptive_avg_pool2d_def
      cat1_def unbind_def rows_def upt_rec numeral_2_eq_2 numeral_3_eq_3)

section \<open>The range of the byte maps\<close>

lemma length_centered_fmap: "length (centered_fmap bs c hw xs) = bs"
  by (simp add: centered_fmap_def Let_def)

lemma length_nth_centered_fmap:
  "b < bs \<Longrightarrow> length (centered_fmap bs c hw xs ! b) = hw"
  by (simp add: centered_fmap_def Let_def)

lemma project_V0_rows:
  assumes "length V = bs"
  shows "length (project_V0 (centered_fmap bs c hw xs) V) = bs"
    and "\<forall>r\<in>set (project_V0 (centered_fmap bs c hw xs) V). length r = hw"
proof -
  show "length (project_V0 (centered_fmap bs c hw xs) V) = bs"
    using assms by (simp add: project_V0_def length_centered_fmap)
  show "\<forall>r\<in>set (project_V0 (centered_fmap bs c hw xs) V). length r = hw"
  proof
    fix r assume "r \<in> set (project_V0 (centered_fmap bs c hw xs) V)"
    then obtain ex Vh where "(ex, Vh) \<in> set (zip (centered_fmap bs c hw xs) V)"
      and r: "length r = length ex"
      by (auto simp: project_V0_def)
    then have "ex \<in> set (centered_fmap bs c hw xs)"
      by (auto dest: set_zip_leftD)
    then obtain k where "k < bs" "ex = centered_fmap bs c hw xs ! k"
      by (auto simp: in_set_conv_nth length_centered_fmap)
    then show "length r = hw"
      by (simp add: r length_nth_centered_fmap)
  qed
qed

lemma EigenCamHook_func_single:
  assumes "shape t = [bs, c, h, w]"
  shows "EigenCamHook_func svd_Vh (Single t) =
           (case svd_Vh (centered_fmap bs c (h * w) (map astype_float32 (data t))) of
              Inl e \<Rightarrow> Inl e
            | Inr V \<Rightarrow>
                if c = 0 \<or> h * w = 0 then Inl IndexError
                else Inr \<lparr>shape = [bs, h, w],
                          data = map to_uint8 (concat (normalize (project_V0
                                   (centered_fmap bs c (h * w) (map astype_float32 (data t))) V)))\<rparr>)"
  using assms by (simp add: EigenCamHook_func_def size4_def Let_def split: sum.split)

lemma eigencam_example:
  assumes "shape t = [bs, c, h, w]" and "0 < c" and "0 < h * w" and "b < bs"
    and "svd_Vh (centered_fmap bs c (h * w) (map astype_float32 (data t))) = Inr V"
    and "length V = bs"
  defines "m \<equiv> project_V0 (centered_fmap bs c (h * w) (map astype_float32 (data t))) V ! b"
  shows "\<exists>out. EigenCamHook_func svd_Vh (Single t) = Inr out \<and> shape out = [bs, h, w] \<and>
           unbind out ! b =
             \<lparr>shape = [h, w],
              data = map (\<lambda>v. to_uint8 (fdiv (fmul (Fin 255) (fsub v (min_value m)))
                        (fadd (fsub (max_value m) (min_value m)) eps32))) m\<rparr>"
    and "length m = h * w"
proof -
  let ?sm = "project_V0 (centered_fmap bs c (h * w) (map astype_float32 (data t))) V"
  note pr = project_V0_rows [OF assms(6), of c "h * w" "map astype_float32 (data t)"]
  have "EigenCamHook_func svd_Vh (Single t) =
          Inr \<lparr>shape = [bs, h, w], data = map to_uint8 (concat (normalize ?sm))\<rparr>"
    using assms(2,3,5) by (simp add: EigenCamHook_func_single [OF assms(1)])
  with normalized_example [OF pr(1) pr(2) assms(4)]
  show "\<exists>out. EigenCamHook_func svd_Vh (Single t) = Inr out \<and> shape out = [bs, h, w] \<and>
           unbind out ! b =
             \<lparr>shape = [h, w],
              data = map (\<lambda>v. to_uint8 (fdiv (fmul (Fin 255) (fsub v (min_value m)))
                        (fadd (fsub (max_value m) (min_value m)) eps32))) m\<rparr>"
    by (simp add: m_def)
  show "length m = h * w"
    using pr assms(4) by (simp add: m_def)
qed

text \<open>
  Claim C3, as the code has it. For a 4-D tensor with at least one channel and one
  position, let \<open>m\<close> be an example's map before the normalisation (the channel average for
  \<open>SaliencyMapHook\<close>, the projection on the first row of the SVD factor for \<open>EigenCamHook\<close>),
  all of whose values are finite. The byte map of the example contains 0, its minimum as
  bytes are unsigned. If the float32 difference \<open>d\<close> of the maximum and the minimum of
  \<open>m\<close> lies between \<open>1e-9\<close> and \<open>1e35\<close>, the byte at the maximum is 254 or 255, so the
  maximum of the byte map is at least 254. The evaluations after the theorem show that the
  maximum is 127 when \<open>d\<close> is the float32 nearest to \<open>1e-12\<close>, and that both 255 and 254
  occur for differences far above the epsilon.
\<close>

theorem saliency_byte_range:
  assumes "shape t = [bs, c, h, w]" and "0 < h * w" and "b < bs"
    and "m = mean_dim1 (h * w) (reshape3 bs c (h * w) (data t)) ! b"
    and "m' = project_V0 (centered_fmap bs c (h * w) (map astype_float32 (data t))) V ! b"
  shows "(list_all is_finite m \<longrightarrow>
            (\<exists>out. SaliencyMapHook_func (Single t) i = Inr out \<and>
               0 \<in> set (data (unbind out ! b)) \<and>
               (fsub (max_value m) (min_value m) = Fin d \<and> 1 / 10 ^ 9 \<le> d \<and> d \<le> 10 ^ 35 \<longrightarrow>
                  (\<exists>x\<in>set (data (unbind out ! b)). 254 \<le> unat x)))) \<and>
         (0 < c \<and> svd_Vh (centered_fmap bs c (h * w) (map astype_float32 (data t))) = Inr V \<and>
          length V = bs \<and> list_all is_finite m' \<longrightarrow>
            (\<exists>out. EigenCamHook_func svd_Vh (Single t) = Inr out \<and>
               0 \<in> set (data (unbind out ! b)) \<and>
               (fsub (max_value m') (min_value m') = Fin d' \<and> 1 / 10 ^ 9 \<le> d' \<and> d' \<le> 10 ^ 35 \<longrightarrow>
                  (\<exists>x\<in>set (data (unbind out ! b)). 254 \<le> unat x))))"
proof (intro conjI impI)
  assume fin: "list_all is_finite m"
  from saliency_example(1) [OF assms(1-3), of i] obtain out
    where out: "SaliencyMapHook_func (Single t) i = Inr out"
      and bytes: "data (unbind out ! b) =
        map (\<lambda>v. to_uint8 (fdiv (fmul (Fin 255) (fsub v (min_value m)))
                  (fadd (fsub (max_value m) (min_value m)) eps32))) m"
    unfolding assms(4) by fastforce
  have "length m = h * w"
    unfolding assms(4) by (rule saliency_example(2) [OF assms(1-3)])
  with assms(2) have ne: "m \<noteq> []" by auto
  from row_bytes(1) [OF ne fin] row_bytes(2) [OF ne fin, of d] out
  show "\<exists>out. SaliencyMapHook_func (Single t) i = Inr out \<and>
            0 \<in> set (data (unbind out ! b)) \<and>
            (fsub (max_value m) (min_value m) = Fin d \<and> 1 / 10 ^ 9 \<le> d \<and> d \<le> 10 ^ 35 \<longrightarrow>
               (\<exists>x\<in>set (data (unbind out ! b)). 254 \<le> unat x))"
    unfolding bytes [symmetric] by blast
next
  assume hyp: "0 < c \<and> svd_Vh (centered_fmap bs c (h * w) (map astype_float32 (data t))) = Inr V \<and>
          length V = bs \<and> list_all is_finite m'"
  then have c: "0 < c"
    and svd: "svd_Vh (centered_fmap bs c (h * w) (map astype_float32 (data t))) = Inr V"
    and len: "length V = bs" and fin: "list_all is_finite m'"
    by simp_all
  from eigencam_example(1) [where svd_Vh = svd_Vh, OF assms(1) c assms(2,3) svd len] obtain out
    where out: "EigenCamHook_func svd_Vh (Single t) = Inr out"
      and bytes: "data (unbind out ! b) =
        map (\<lambda>v. to_uint8 (fdiv (fmul (Fin 255) (fsub v (min_value m')))
                  (fadd (fsub (max_value m') (min_value m')) eps32))) m'"
    unfolding assms(5) by fastforce
  have "length m' = h * w"
    unfolding assms(5)
    by (rule eigencam_example(2) [where svd_Vh = svd_Vh, OF assms(1) c assms(2,3) svd len])
  with assms(2) have ne: "m' \<noteq> []" by auto
  from row_bytes(1) [OF ne fin] row_bytes(2) [OF ne fin, of d'] out
  show "\<exists>out. EigenCamHook_func svd_Vh (Single t) = Inr out \<and>
            0 \<in> set (data (unbind out ! b)) \<and>
            (fsub (max_value m') (min_value m') = Fin d' \<and> 1 / 10 ^ 9 \<le> d' \<and> d' \<le> 10 ^ 35 \<longrightarrow>
               (\<exists>x\<in>set (data (unbind out ! b)). 254 \<le> unat x))"
    unfolding bytes [symmetric] by blast
qed

text \<open>
  The tensor of shape \<open>1 \<times> 1 \<times> 1 \<times> 2\<close> with the elements 0 and the float32 nearest to
  \<open>1e-12\<close> is not constant, and its byte map has the maximum 127: the rounded quotient of
  \<open>255 * d\<close> and \<open>d + d\<close> is 127.5.
\<close>

theorem saliency_max_not_255:
  "SaliencyMapHook_func
     (Single \<lparr>shape = [1, 1, 1, 2], data = [Fin 0, round32 (1 / 10 ^ 12)]\<rparr>) 0 =
     Inr \<lparr>shape = [1, 1, 2], data = [0, 127]\<rparr>"
  by (simp add: pipeline)

theorem saliency_byte_range_witness:
  "(\<exists>out. SaliencyMapHook_func
            (Single \<lparr>shape = [1, 1, 1, 2], data = [Fin 0, Fin 2]\<rparr>) 0 = Inr out \<and>
      0 \<in> set (data (unbind out ! 0)) \<and> (\<exists>x\<in>set (data (unbind out ! 0)). 254 \<le> unat x)) \<and>
   (\<exists>out. EigenCamHook_func (\<lambda>A. Inr (map (\<lambda>_. [[Fin 1]]) A))
            (Single \<lparr>shape = [1, 1, 1, 2], data = [Fin 0, Fin 2]\<rparr>) = Inr out \<and>
      0 \<in> set (data (unbind out ! 0)) \<and> (\<exists>x\<in>set (data (unbind out ! 0)). 254 \<le> unat x))"
  using saliency_byte_range [where t = "\<lparr>shape = [1, 1, 1, 2], data = [Fin 0, Fin 2]\<rparr>"
      and bs = 1 and c = 1 and h = 1 and w = 2 and b = 0 and i = 0
      and svd_Vh = "\<lambda>A. Inr (map (\<lambda>_. [[Fin 1]]) A)" and V = "[[[Fin 1]]]"
      and m = "[Fin 0, Fin 2]" and m' = "[Fin (- 1), Fin 1]" and d = 2 and d' = 2]
  by (simp add: pipeline eigen is_finite_def)

text \<open>
  With the elements 0 and 1 the epsilon is absorbed by the rounding of \<open>1 + 1e-12\<close> and the
  maximum is 255. With the elements 0 and 8421532 the product \<open>255 * 8421532\<close> is rounded
  down to 2147490560, the quotient is rounded to \<open>255 - 2^-16\<close>, and the maximum is 254.
\<close>

lemma saliency_max_examples:
  "SaliencyMapHook_func (Single \<lparr>shape = [1, 1, 1, 2], data = [Fin 0, Fin 1]\<rparr>) 0 =
     Inr \<lparr>shape = [1, 1, 2], data = [0, 255]\<rparr> \<and>
   SaliencyMapHook_func (Single \<lparr>shape = [1, 1, 1, 2], data = [Fin 0, Fin 8421532]\<rparr>) 0 =
     Inr \<lparr>shape = [1, 1, 2], data = [0, 254]\<rparr>"
  by (simp add: pipeline)

section \<open>EigenCAM on non-finite input\<close>

text \<open>
  Claim C8, as the code has it. \<open>EigenCamHook.func\<close> has no check of its own on the values
  of the tensor. On a 4-D tensor with at least one channel and one position, whatever its
  values are, it returns a byte map of shape \<open>(bs, h, w)\<close> whenever \<open>torch.linalg.svd\<close>
  returns, and it fails exactly when \<open>torch.linalg.svd\<close> fails, with that error.
\<close>

theorem eigencam_no_finiteness_check:
  assumes "shape t = [bs, c, h, w]" and "0 < c" and "0 < h * w"
  shows "(\<forall>V. svd_Vh (centered_fmap bs c (h * w) (map astype_float32 (data t))) = Inr V \<longrightarrow>
            (\<exists>out. EigenCamHook_func svd_Vh (Single t) = Inr out \<and> shape out = [bs, h, w])) \<and>
         (\<forall>e. svd_Vh (centered_fmap bs c (h * w) (map astype_float32 (data t))) = Inl e \<longrightarrow>
            EigenCamHook_func svd_Vh (Single t) = Inl e)"
  using assms(2,3) by (simp add: EigenCamHook_func_single [OF assms(1)])

text \<open>
  With an SVD that returns NaN factors on a matrix that is not finite, the tensors of shape
  \<open>1 \<times> 1 \<times> 1 \<times> 2\<close> with the elements NaN, 1 and with the elements infinity, 1 get the
  byte map \<open>[0, 0]\<close>: the mean, the centred matrix, the projection and the normalised map
  are NaN, and nothing is raised.
\<close>

theorem eigencam_nonfinite_returns_map:
  "EigenCamHook_func (\<lambda>A. Inr (map (\<lambda>_. [[NaN]]) A))
     (Single \<lparr>shape = [1, 1, 1, 2], data = [NaN, Fin 1]\<rparr>) =
     Inr \<lparr>shape = [1, 1, 2], data = [0, 0]\<rparr> \<and>
   EigenCamHook_func (\<lambda>A. Inr (map (\<lambda>_. [[NaN]]) A))
     (Single \<lparr>shape = [1, 1, 1, 2], data = [PInf, Fin 1]\<rparr>) =
     Inr \<lparr>shape = [1, 1, 2], data = [0, 0]\<rparr>"
  by (simp add: pipeline eigen)

theorem eigencam_no_finiteness_check_witness:
  "(\<exists>out. EigenCamHook_func (\<lambda>A. Inr (map (\<lambda>_. [[NaN]]) A))
            (Single \<lparr>shape = [1, 1, 1, 2], data = [NaN, Fin 1]\<rparr>) = Inr out \<and>
          shape out = [1, 1, 2]) \<and>
   EigenCamHook_func (\<lambda>A. Inl RuntimeError)
     (Single \<lparr>shape = [1, 1, 1, 2], data = [NaN, Fin 1]\<rparr>) = Inl RuntimeError"
  using eigencam_no_finiteness_check [where t = "\<lparr>shape = [1, 1, 1, 2], data = [NaN, Fin 1]\<rparr>"
      and bs = 1 and c = 1 and h = 1 and w = 2 and svd_Vh = "\<lambda>A. Inr (map (\<lambda>_. [[NaN]]) A)"]
    eigencam_no_finiteness_check [where t = "\<lparr>shape = [1, 1, 1, 2], data = [NaN, Fin 1]\<rparr>"
      and bs = 1 and c = 1 and h = 1 and w = 2 and svd_Vh = "\<lambda>A. Inl RuntimeError"]
  by simp

section \<open>EigenCAM on a negated tensor\<close>

text \<open>
  For one channel the third SVD factor of an example is \<open>[[1]]\<close> or \<open>[[-1]]\<close>, and both are
  factors of a valid decomposition of the centred matrix and of its negation. On the tensor
  with the elements 0 and 2 and the factor \<open>[[1]]\<close> the byte map is \<open>[0, 255]\<close>. On the
  negated tensor the byte map is the mirrored \<open>[255, 0]\<close> if the SVD returns the same
  factor, and the same \<open>[0, 255]\<close> if it returns the negated one.
\<close>

lemma eigencam_negation_examples:
  "EigenCamHook_func (\<lambda>A. Inr (map (\<lambda>_. [[Fin 1]]) A))
     (Single \<lparr>shape = [1, 1, 1, 2], data = [Fin 0, Fin 2]\<rparr>) =
     Inr \<lparr>shape = [1, 1, 2], data = [0, 255]\<rparr> \<and>
   EigenCamHook_func (\<lambda>A. Inr (map (\<lambda>_. [[Fin 1]]) A))
     (Single \<lparr>shape = [1, 1, 1, 2], data = [Fin 0, Fin (- 2)]\<rparr>) =
     Inr \<lparr>shape = [1, 1, 2], data = [255, 0]\<rparr> \<and>
   EigenCamHook_func (\<lambda>A. Inr (map (\<lambda>_. [[Fin (- 1)]]) A))
     (Single \<lparr>shape = [1, 1, 1, 2], data = [Fin 0, Fin (- 2)]\<rparr>) =
     Inr \<lparr>shape = [1, 1, 2], data = [0, 255]\<rparr>"
  by (simp add: pipeline eigen)

end
